theory Spec2Isabelle
  imports Complex_Main
begin

section \<open>JavaScript values\<close>

text \<open>
  The utilities of the plugin work on untyped JavaScript values: the block registry
  holds objects, the filter hooks may return anything. A value is a primitive, an
  array or a plain object (its own properties as an association list, the first
  binding of a key being the property). Numbers are the integers; functions are
  not values of this type, and objects carry no identity.
\<close>

datatype jsval =
    JUndefined
  | JNull
  | JBool bool
  | JNum int
  | JStr string
  | JArr "jsval list"
  | JObj "(string \<times> jsval) list"

datatype error = TypeError

text \<open>
  \<open>v.k\<close> for the keys the source reads (\<open>name\<close> and \<open>category\<close>): an own
  property of an object, \<open>undefined\<close> on everything else that is not nullish.
\<close>

fun getProp :: "jsval \<Rightarrow> string \<Rightarrow> jsval" where
  "getProp (JObj ps) k = (case map_of ps k of Some v \<Rightarrow> v | None \<Rightarrow> JUndefined)"
| "getProp _ k = JUndefined"

text \<open>\<open>v?.k\<close>: \<open>undefined\<close> when \<open>v\<close> is \<open>null\<close> or \<open>undefined\<close>.\<close>

definition optChain :: "jsval \<Rightarrow> string \<Rightarrow> jsval" where
  "optChain v k = (if v = JUndefined \<or> v = JNull then JUndefined else getProp v k)"

fun isPrimitive :: "jsval \<Rightarrow> bool" where
  "isPrimitive (JArr _) = False"
| "isPrimitive (JObj _) = False"
| "isPrimitive _ = True"

text \<open>
  \<open>a === b\<close>: primitives compare by value; two arrays or objects are equal only as
  the same reference, which two values of the model never are.
\<close>

definition strictEq :: "jsval \<Rightarrow> jsval \<Rightarrow> bool" where
  "strictEq a b = (isPrimitive a \<and> a = b)"

section \<open>The host: block registry and filter hooks\<close>

text \<open>
  \<open>blockTypes\<close> is what \<open>getBlockTypes()\<close> returns, \<open>filters\<close> the callbacks added
  to each hook name in the order they run, \<open>wpVersion\<close> the global \<open>srfbe.wpVersion\<close>.
\<close>

record world =
  blockTypes :: "jsval list"
  filters :: "string \<Rightarrow> (jsval \<Rightarrow> jsval) list"
  wpVersion :: string

definition getBlockTypes :: "world \<Rightarrow> jsval list" where
  "getBlockTypes w = blockTypes w"

text \<open>\<open>applyFilters(hook, value)\<close>: the value passed through every callback of the hook.\<close>

definition applyFilters :: "world \<Rightarrow> string \<Rightarrow> jsval \<Rightarrow> jsval" where
  "applyFilters w hook v = foldl (\<lambda>x f. f x) v (filters w hook)"

section \<open>Eligible blocks\<close>

definition getTextBlocks :: "world \<Rightarrow> jsval list" where
  "getTextBlocks w =
     map (\<lambda>block. optChain block ''name'')
       (filter (\<lambda>block. strictEq (optChain block ''category'') (JStr ''text''))
          (getBlockTypes w))"

definition getAllowedBlocksAndFields :: "world \<Rightarrow> jsval" where
  "getAllowedBlocksAndFields w =
     applyFilters w ''search-replace-for-block-editor.allowedBlocksAndFields''
       (JArr (getTextBlocks w))"

text \<open>
  \<open>block.hasOwnProperty("name")\<close>: a \<open>TypeError\<close> on \<open>null\<close> and \<open>undefined\<close>;
  no primitive and no array has an own property of that name. On an object the method
  is the inherited one unless the object has an own property \<open>hasOwnProperty\<close>, which
  shadows it; the values of the model are not functions, so calling that property is
  a \<open>TypeError\<close>.
\<close>

fun hasOwnName :: "jsval \<Rightarrow> error + bool" where
  "hasOwnName JUndefined = Inl TypeError"
| "hasOwnName JNull = Inl TypeError"
| "hasOwnName (JObj ps) =
     (if ''hasOwnProperty'' \<in> fst ` set ps then Inl TypeError
      else Inr (''name'' \<in> fst ` set ps))"
| "hasOwnName _ = Inr False"

text \<open>The callback of the \<open>map\<close> in \<open>getAllowedBlocks\<close>: no \<open>return\<close> is \<open>undefined\<close>.\<close>

definition fieldBlockName :: "jsval \<Rightarrow> error + jsval" where
  "fieldBlockName block =
     (case hasOwnName block of
        Inl e \<Rightarrow> Inl e
      | Inr has \<Rightarrow> Inr (if has then getProp block ''name'' else JUndefined))"

fun mapE :: "('a \<Rightarrow> error + 'b) \<Rightarrow> 'a list \<Rightarrow> error + 'b list" where
  "mapE f [] = Inr []"
| "mapE f (x # xs) =
     (case f x of
        Inl e \<Rightarrow> Inl e
      | Inr y \<Rightarrow> (case mapE f xs of Inl e \<Rightarrow> Inl e | Inr ys \<Rightarrow> Inr (y # ys)))"

text \<open>\<open>v.map(f)\<close>: only an array has the method.\<close>

fun arrayMap :: "(jsval \<Rightarrow> error + jsval) \<Rightarrow> jsval \<Rightarrow> error + jsval list" where
  "arrayMap f (JArr xs) = mapE f xs"
| "arrayMap f _ = Inl TypeError"

text \<open>
  \<open>[...v]\<close>: the elements of an array, the characters of a string, a \<open>TypeError\<close>
  on a value that is not iterable.
\<close>

fun spread :: "jsval \<Rightarrow> error + jsval list" where
  "spread (JArr xs) = Inr xs"
| "spread (JStr s) = Inr (map (\<lambda>c. JStr [c]) s)"
| "spread _ = Inl TypeError"

definition getAllowedBlocks :: "world \<Rightarrow> error + jsval list" where
  "getAllowedBlocks w =
     (let blocks = applyFilters w ''search-replace-for-block-editor.allowedBlocks''
                     (JArr (getTextBlocks w))
      in case arrayMap fieldBlockName (getAllowedBlocksAndFields w) of
           Inl e \<Rightarrow> Inl e
         | Inr fieldBlocks \<Rightarrow>
             (case spread blocks of
                Inl e \<Rightarrow> Inl e
              | Inr bs \<Rightarrow> Inr (bs @ fieldBlocks)))"

section \<open>JavaScript numbers\<close>

text \<open>
  A number of the language is \<open>NaN\<close>, an infinity or a finite double, held as the
  rational it denotes. The negative zero is not told from zero: the source adds,
  multiplies and compares, and none of these tells them apart in what it returns here.
\<close>

datatype jsnum = NaN | Finite rat | PosInfinity | NegInfinity

text \<open>The number of binary digits of a positive integer.\<close>

function bitLength :: "int \<Rightarrow> int" where
  "bitLength n = (if n \<le> 0 then 0 else 1 + bitLength (n div 2))"
  by pat_completeness auto
termination
  by (relation "measure nat") auto

declare bitLength.simps [simp del]

definition pow2 :: "int \<Rightarrow> rat" where
  "pow2 k = (if 0 \<le> k then 2 ^ nat k else 1 / 2 ^ nat (- k))"

text \<open>The binary exponent of a positive rational \<open>a\<close>: the \<open>e\<close> with \<open>2 ^ e \<le> a < 2 ^ (e + 1)\<close>.\<close>

definition exponentOf :: "rat \<Rightarrow> int" where
  "exponentOf a =
     (let (p, q) = quotient_of a;
          d = bitLength p - bitLength q
      in if pow2 d \<le> a then d else d - 1)"

definition roundHalfEven :: "rat \<Rightarrow> int" where
  "roundHalfEven q =
     (let f = \<lfloor>q\<rfloor>; r = q - of_int f
      in if r < 1 / 2 then f
         else if 1 / 2 < r then f + 1
         else if even f then f else f + 1)"

text \<open>
  The double nearest to a rational, ties to the even significand: 53 significant bits,
  the spacing of the subnormals below \<open>2 ^ - 1022\<close>, an infinity from \<open>2 ^ 1024\<close> on.
\<close>

definition fl :: "rat \<Rightarrow> jsnum" where
  "fl x =
     (if x = 0 then Finite 0
      else let a = \<bar>x\<bar>;
               e = max (exponentOf a) (- 1022);
               ulp = pow2 (e - 52);
               r = of_int (roundHalfEven (a / ulp)) * ulp
           in if pow2 1024 \<le> r then (if x < 0 then NegInfinity else PosInfinity)
              else Finite (if x < 0 then - r else r))"

text \<open>\<open>a + b\<close>, \<open>a * b\<close> and \<open>a < b\<close> on numbers.\<close>

fun jsAdd :: "jsnum \<Rightarrow> jsnum \<Rightarrow> jsnum" where
  "jsAdd (Finite a) (Finite b) = fl (a + b)"
| "jsAdd NaN b = NaN"
| "jsAdd a NaN = NaN"
| "jsAdd PosInfinity NegInfinity = NaN"
| "jsAdd NegInfinity PosInfinity = NaN"
| "jsAdd PosInfinity b = PosInfinity"
| "jsAdd a PosInfinity = PosInfinity"
| "jsAdd NegInfinity b = NegInfinity"
| "jsAdd a NegInfinity = NegInfinity"

fun isZero :: "jsnum \<Rightarrow> bool" where
  "isZero (Finite a) = (a = 0)"
| "isZero a = False"

fun isNegative :: "jsnum \<Rightarrow> bool" where
  "isNegative (Finite a) = (a < 0)"
| "isNegative NegInfinity = True"
| "isNegative a = False"

fun jsMul :: "jsnum \<Rightarrow> jsnum \<Rightarrow> jsnum" where
  "jsMul (Finite a) (Finite b) = fl (a * b)"
| "jsMul NaN b = NaN"
| "jsMul a NaN = NaN"
| "jsMul a b =
     (if isZero a \<or> isZero b then NaN
      else if isNegative a \<noteq> isNegative b then NegInfinity
      else PosInfinity)"

fun jsLess :: "jsnum \<Rightarrow> jsnum \<Rightarrow> bool" where
  "jsLess (Finite a) (Finite b) = (a < b)"
| "jsLess NaN b = False"
| "jsLess a NaN = False"
| "jsLess PosInfinity b = False"
| "jsLess a NegInfinity = False"
| "jsLess a b = True"

text \<open>
  The builtins the source calls and the model takes from the engine: \<open>Number\<close> on a
  string, and \<open>Math.pow\<close>, whose result the language leaves to the implementation.
\<close>

record engine =
  Number :: "string \<Rightarrow> jsnum"
  Math_pow :: "jsnum \<Rightarrow> jsnum \<Rightarrow> jsnum"

section \<open>Version comparison\<close>

text \<open>\<open>s.split('.')\<close>: the pieces between the dots; a string without a dot is one piece.\<close>

fun splitDot :: "string \<Rightarrow> string list" where
  "splitDot [] = [[]]"
| "splitDot (c # cs) =
     (if c = CHR ''.'' then [] # splitDot cs
      else (case splitDot cs of [] \<Rightarrow> [[c]] | p # ps \<Rightarrow> (c # p) # ps))"

text \<open>
  The \<open>reduce\<close> runs over the values with their indices, from the accumulator 0.
  The exponent \<open>values.length - 1 - index\<close> is a small integer that is not negative,
  as the index is below the length.
\<close>

definition getNumberToBase10 :: "engine \<Rightarrow> jsnum list \<Rightarrow> jsnum" where
  "getNumberToBase10 js values =
     foldl (\<lambda>sum (value, index).
              jsAdd sum (jsMul value
                (Math_pow js (Finite 10) (Finite (of_nat (length values - 1 - index))))))
       (Finite 0) (zip values [0..<length values])"

definition isWpVersion :: "engine \<Rightarrow> world \<Rightarrow> string \<Rightarrow> bool" where
  "isWpVersion js w version =
     (let argVersion = getNumberToBase10 js (map (Number js) (splitDot version));
          sysVersion = getNumberToBase10 js (map (Number js) (splitDot (wpVersion w)))
      in \<not> jsLess sysVersion argVersion)"

text \<open>
  What the comparison is measured against. The exact integer sum of the
  \<open>v_i * 10 ^ (n - 1 - i)\<close>, and the ordering of version numbers: component by
  component from the left, a missing component counting as 0, so that 6.6 and 6.6.0
  are the same version.
\<close>

definition positional :: "int list \<Rightarrow> int" where
  "positional vs = (\<Sum>i<length vs. vs ! i * 10 ^ (length vs - 1 - i))"

fun versionLess :: "int list \<Rightarrow> int list \<Rightarrow> bool" where
  "versionLess [] [] = False"
| "versionLess [] (b # bs) = (0 < b \<or> (0 = b \<and> versionLess [] bs))"
| "versionLess (a # as) [] = (a < 0 \<or> (a = 0 \<and> versionLess as []))"
| "versionLess (a # as) (b # bs) = (a < b \<or> (a = b \<and> versionLess as bs))"

section \<open>Waiting for the editor root\<close>

datatype htmlElement = HTMLElement string

datatype promise = Pending | Resolved htmlElement | Rejected string

text \<open>
  The state \<open>getEditorRoot\<close> creates: its counter, the promise it returns, and whether
  the interval it has set is still scheduled.
\<close>

record poller =
  elapsedTime :: nat
  promiseState :: promise
  intervalSet :: bool

definition interval :: nat where
  "interval = 100"

text \<open>A promise is settled once: \<open>resolve\<close> and \<open>reject\<close> on a settled promise do nothing.\<close>

definition resolve :: "htmlElement \<Rightarrow> poller \<Rightarrow> poller" where
  "resolve element st =
     (if promiseState st = Pending then st\<lparr>promiseState := Resolved element\<rparr> else st)"

definition reject :: "string \<Rightarrow> poller \<Rightarrow> poller" where
  "reject msg st =
     (if promiseState st = Pending then st\<lparr>promiseState := Rejected msg\<rparr> else st)"

definition clearInterval :: "poller \<Rightarrow> poller" where
  "clearInterval st = st\<lparr>intervalSet := False\<rparr>"

text \<open>
  The callback of \<open>setInterval\<close>, given what \<open>document.querySelector(selector)\<close>
  returns at this run (\<open>None\<close> for \<open>null\<close>): the \<open>root\<close> of the source, here
  \<open>found\<close>. Both tests are made in every run.
\<close>

definition onInterval :: "htmlElement option \<Rightarrow> poller \<Rightarrow> poller" where
  "onInterval found st =
     (let st1 = st\<lparr>elapsedTime := elapsedTime st + interval\<rparr>;
          st2 = (case found of
                   Some r \<Rightarrow> resolve r (clearInterval st1)
                 | None \<Rightarrow> st1)
      in if elapsedTime st2 > 600 * interval
         then reject ''Unable to get Editor root container...'' (clearInterval st2)
         else st2)"

text \<open>
  The timer: it runs the callback, once per interval, for as long as the interval is
  scheduled. \<open>queries k\<close> is the result of the query at run \<open>k\<close> (counted from 0).
\<close>

function runInterval :: "(nat \<Rightarrow> htmlElement option) \<Rightarrow> nat \<Rightarrow> poller \<Rightarrow> poller" where
  "runInterval queries k st =
     (if intervalSet st then runInterval queries (Suc k) (onInterval (queries k) st) else st)"
  by pat_completeness auto
termination
proof (relation "measure (\<lambda>(queries, k, st).
    if intervalSet st then Suc (600 * interval - elapsedTime st) else 0)")
  show "wf (measure (\<lambda>(queries, k, st).
    if intervalSet st then Suc (600 * interval - elapsedTime st) else 0))"
    by simp
next
  fix queries :: "nat \<Rightarrow> htmlElement option" and k :: nat and st :: poller
  assume "intervalSet st"
  then show "((queries, Suc k, onInterval (queries k) st), queries, k, st)
    \<in> measure (\<lambda>(queries, k, st).
        if intervalSet st then Suc (600 * interval - elapsedTime st) else 0)"
    by (auto simp: onInterval_def Let_def resolve_def reject_def clearInterval_def interval_def
        split: option.splits if_splits)
qed

declare runInterval.simps [simp del]

text \<open>
  The state after \<open>j\<close> runs that found nothing and did not time out, and the
  state of a timer that has stopped after \<open>j\<close> runs with the promise settled.
\<close>

definition waiting :: "nat \<Rightarrow> poller" where
  "waiting j = \<lparr>elapsedTime = j * interval, promiseState = Pending, intervalSet = True\<rparr>"

definition stopped :: "nat \<Rightarrow> promise \<Rightarrow> poller" where
  "stopped j p = \<lparr>elapsedTime = j * interval, promiseState = p, intervalSet = False\<rparr>"

text \<open>
  \<open>getEditorRoot\<close>: the selector is chosen by the version, the promise is created
  pending and the interval set; the result is the state when the timer has stopped.
  \<open>document k selector\<close> is what the document answers to the query at run \<open>k\<close>.
\<close>

definition getEditorRoot :: "engine \<Rightarrow> world \<Rightarrow> (nat \<Rightarrow> string \<Rightarrow> htmlElement option) \<Rightarrow> poller" where
  "getEditorRoot js w document =
     (let selector = (if isWpVersion js w ''6.6.0'' then ''.editor-header__toolbar''
                      else ''.edit-post-header__toolbar'')
      in runInterval (\<lambda>k. document k selector) 0
           \<lparr>elapsedTime = 0, promiseState = Pending, intervalSet = True\<rparr>)"

section \<open>The toolbar icon\<close>

text \<open>
  What a component renders: an element with the component's name, its textual
  properties and its children (handlers and the icon are left out).
\<close>

datatype element = Element string "(string \<times> string) list" "element list"

text \<open>
  A block settings object: its properties by name. A property holds a value or a
  component, a function from the properties passed to it to what it renders.
\<close>

datatype field = Value jsval | Component "jsval \<Rightarrow> error + element"

type_synonym settings = "string \<Rightarrow> field option"

text \<open>\<open>xs.indexOf(v)\<close>: the first position whose entry is strictly equal to \<open>v\<close>, or -1.\<close>

fun indexOf :: "jsval list \<Rightarrow> jsval \<Rightarrow> int" where
  "indexOf [] v = - 1"
| "indexOf (x # xs) v =
     (if strictEq x v then 0
      else (let i = indexOf xs v in if i = - 1 then - 1 else i + 1))"

text \<open>
  The same for a property read from the settings: a missing property is \<open>undefined\<close>,
  and a function is not equal to any entry of a list of values.
\<close>

fun indexOfField :: "jsval list \<Rightarrow> field option \<Rightarrow> int" where
  "indexOfField xs None = indexOf xs JUndefined"
| "indexOfField xs (Some (Value v)) = indexOf xs v"
| "indexOfField xs (Some (Component f)) = - 1"

text \<open>\<open>edit(props)\<close>: a \<open>TypeError\<close> when \<open>edit\<close> is not a function.\<close>

fun callField :: "field option \<Rightarrow> jsval \<Rightarrow> error + element" where
  "callField (Some (Component f)) props = f props"
| "callField _ props = Inl TypeError"

text \<open>The component assigned to \<open>settings.edit\<close>: the toolbar, then the original editor.\<close>

definition toolbarEdit :: "field option \<Rightarrow> jsval \<Rightarrow> error + element" where
  "toolbarEdit edit props =
     (let controls =
        Element ''BlockControls'' []
          [Element ''ToolbarGroup'' []
             [Element ''ToolbarButton''
                [(''label'', ''Edit''), (''placeholder'', ''Search & Replace'')] []]]
      in case callField edit props of
           Inl e \<Rightarrow> Inl e
         | Inr original \<Rightarrow> Inr (Element ''Fragment'' [] [controls, original]))"

definition SearchReplaceToolbarIcon :: "world \<Rightarrow> settings \<Rightarrow> error + settings" where
  "SearchReplaceToolbarIcon w settings =
     (let name = settings ''name''; edit = settings ''edit''
      in case getAllowedBlocks w of
           Inl e \<Rightarrow> Inl e
         | Inr allowed \<Rightarrow>
             if indexOfField allowed name = - 1 then Inr settings
             else Inr (settings(''edit'' \<mapsto> Component (toolbarEdit edit))))"

section \<open>The match locator\<close>

text \<open>
  Modelled from the spec: the match locator \<open>findAll\<close> is not among the sources. The
  spec gives it as a substring scan that repeatedly locates the next occurrence of
  the query, starting the search at the end of the previous match (leftmost first,
  matches that do not overlap), with an empty query giving no match, and, when the
  search is not case sensitive, the comparison made on case-normalised copies of the
  text and of the query and the offsets reported against the original text. A match
  is a pair of offset and length. Case normalisation is that of the ASCII letters.
\<close>

text \<open>The offset of the leftmost occurrence of the query in a text, if there is one.\<close>

fun locate :: "string \<Rightarrow> string \<Rightarrow> nat option" where
  "locate [] query = (if query = [] then Some 0 else None)"
| "locate (c # cs) query =
     (if take (length query) (c # cs) = query then Some 0
      else map_option Suc (locate cs query))"

lemma locate_Some:
  "locate t query = Some i \<Longrightarrow>
     i + length query \<le> length t \<and> take (length query) (drop i t) = query"
proof (induction t arbitrary: i)
  case Nil
  then show ?case by (simp split: if_splits)
next
  case (Cons c cs)
  show ?case
  proof (cases "take (length query) (c # cs) = query")
    case True
    with Cons.prems have "i = 0" by simp
    moreover have "length (take (length query) (c # cs)) \<le> length (c # cs)"
      by simp
    with True have "length query \<le> length (c # cs)"
      by simp
    ultimately show ?thesis using True by simp
  next
    case False
    with Cons.prems obtain j where "locate cs query = Some j" "i = Suc j"
      by auto
    with Cons.IH [of j] show ?thesis by simp
  qed
qed

function scanFrom :: "string \<Rightarrow> string \<Rightarrow> nat \<Rightarrow> (nat \<times> nat) list" where
  "scanFrom text query start =
     (if query = [] then []
      else (case locate (drop start text) query of
              None \<Rightarrow> []
            | Some i \<Rightarrow>
                (start + i, length query) # scanFrom text query (start + i + length query)))"
  by pat_completeness auto
termination
proof (relation "measure (\<lambda>(text, query, start). length text - start)")
  show "wf (measure (\<lambda>(text, query, start). length text - start))"
    by simp
next
  fix t query :: string and start i :: nat
  assume nonempty: "query \<noteq> []" and found: "locate (drop start t) query = Some i"
  from found have fits: "i + length query \<le> length t - start"
    using locate_Some [of "drop start t" query i] by simp
  from nonempty have "0 < length query"
    by simp
  with fits have "length t - (start + i + length query) < length t - start"
    by linarith
  then show "((t, query, start + i + length query), t, query, start)
    \<in> measure (\<lambda>(text, query, start). length text - start)"
    by simp
qed

declare scanFrom.simps [simp del]

definition toLowerChar :: "char \<Rightarrow> char" where
  "toLowerChar c =
     (if 65 \<le> (of_char c :: nat) \<and> (of_char c :: nat) \<le> 90
      then char_of ((of_char c :: nat) + 32) else c)"

definition findAll :: "string \<Rightarrow> string \<Rightarrow> bool \<Rightarrow> (nat \<times> nat) list" where
  "findAll text query caseSensitive =
     (if query = [] then []
      else if caseSensitive then scanFrom text query 0
      else scanFrom (map toLowerChar text) (map toLowerChar query) 0)"

text \<open>A registry and hook tables used to evaluate the definitions.\<close>

abbreviation allowedBlocksHook :: string where
  "allowedBlocksHook \<equiv> ''search-replace-for-block-editor.allowedBlocks''"

abbreviation allowedBlocksAndFieldsHook :: string where
  "allowedBlocksAndFieldsHook \<equiv> ''search-replace-for-block-editor.allowedBlocksAndFields''"

definition coreRegistry :: "jsval list" where
  "coreRegistry =
     [JObj [(''name'', JStr ''core/paragraph''), (''category'', JStr ''text'')],
      JObj [(''name'', JStr ''core/image''), (''category'', JStr ''media'')],
      JObj [(''name'', JStr ''core/heading''), (''category'', JStr ''text'')]]"

definition plainWorld :: world where
  "plainWorld = \<lparr>blockTypes = coreRegistry, filters = (\<lambda>hook. []), wpVersion = ''6.6''\<rparr>"

definition paragraphWorld :: world where
  "paragraphWorld =
     \<lparr>blockTypes = [JObj [(''name'', JStr ''core/paragraph''), (''category'', JStr ''text'')]],
      filters = (\<lambda>hook. []), wpVersion = ''6.6''\<rparr>"

text \<open>A provider of the first hook that appends the number 42 to the list it is given.\<close>

fun appendNumber :: "jsval \<Rightarrow> jsval" where
  "appendNumber (JArr xs) = JArr (xs @ [JNum 42])"
| "appendNumber v = v"


text \<open>
  A provider of the second hook in the documented format, a list of objects with
  \<open>name\<close> and \<open>fields\<close>.
\<close>

definition fieldRules :: "jsval \<Rightarrow> jsval" where
  "fieldRules v =
     JArr [JObj [(''name'', JStr ''acme/card''),
                 (''fields'', JArr [JStr ''title'', JStr ''body''])]]"


definition fieldsWorld' :: world where
  "fieldsWorld' =
     \<lparr>blockTypes = coreRegistry,
      filters = (\<lambda>hook. if hook = allowedBlocksHook then [(\<lambda>v. v), appendNumber]
                       else if hook = allowedBlocksAndFieldsHook then [appendNumber, fieldRules]
                       else if hook = ''search-replace-for-block-editor.caseSensitive''
                         then [(\<lambda>v. JBool True)]
                       else []),
      wpVersion = ''6.5.2''\<rparr>"

text \<open>
  An engine for the examples. Its \<open>Number\<close> reads a string of decimal digits as the
  double nearest to its value and the empty string as 0, and gives \<open>NaN\<close> on a string
  with any other character, such as \<open>7-RC1\<close>. Its \<open>Math.pow\<close> is the double nearest
  to the power, for an exponent that is an integer and not negative.
\<close>

definition isDigit :: "char \<Rightarrow> bool" where
  "isDigit c = (48 \<le> (of_char c :: nat) \<and> (of_char c :: nat) \<le> 57)"

definition digitValue :: "char \<Rightarrow> int" where
  "digitValue c = int (of_char c) - 48"

definition decimalNumber :: "string \<Rightarrow> jsnum" where
  "decimalNumber s =
     (if list_all isDigit s then fl (of_int (foldl (\<lambda>n c. 10 * n + digitValue c) 0 s))
      else NaN)"

fun integerPow :: "jsnum \<Rightarrow> jsnum \<Rightarrow> jsnum" where
  "integerPow (Finite b) (Finite k) =
     (if 0 \<le> k \<and> k = of_int \<lfloor>k\<rfloor> then fl (b ^ nat \<lfloor>k\<rfloor>) else NaN)"
| "integerPow b k = NaN"

definition exampleEngine :: engine where
  "exampleEngine = \<lparr>Number = decimalNumber, Math_pow = integerPow\<rparr>"

text \<open>A host that runs a release candidate.\<close>

definition candidateWorld :: world where
  "candidateWorld = \<lparr>blockTypes = coreRegistry, filters = (\<lambda>hook. []), wpVersion = ''6.7-RC1''\<rparr>"

text \<open>Two block settings objects: a text block and a media block.\<close>

definition originalEdit :: "jsval \<Rightarrow> error + element" where
  "originalEdit props = Inr (Element ''RichText'' [] [])"

definition paragraphSettings :: settings where
  "paragraphSettings =
     [''name'' \<mapsto> Value (JStr ''core/paragraph''),
      ''title'' \<mapsto> Value (JStr ''Paragraph''),
      ''edit'' \<mapsto> Component originalEdit]"

definition imageSettings :: settings where
  "imageSettings =
     [''name'' \<mapsto> Value (JStr ''core/image''),
      ''title'' \<mapsto> Value (JStr ''Image''),
      ''edit'' \<mapsto> Component originalEdit]"

section \<open>Arrays in the heap\<close>

text \<open>
  The definitions above give the entries of the arrays the source returns. An array
  of the language is an object in the heap: \<open>filter\<close>, \<open>map\<close> and an array literal
  each make a new array, and none of them writes to an array that exists. The host is
  the heap of arrays with the next address to be given out, the address of the array
  that \<open>getBlockTypes()\<close> returns, and the providers of the hooks, each a function
  from the value it is given to the value it returns.
\<close>

type_synonym ref = nat

record host =
  arrays :: "ref \<Rightarrow> jsval list option"
  nextRef :: ref
  registry :: ref
  hooks :: "string \<Rightarrow> (jsval \<Rightarrow> jsval) list"
  hostVersion :: string

text \<open>A new array: the next address, and the heap with the array at it.\<close>

definition allocate :: "jsval list \<Rightarrow> host \<Rightarrow> ref \<times> host" where
  "allocate xs h = (nextRef h, h\<lparr>arrays := (arrays h)(nextRef h \<mapsto> xs), nextRef := Suc (nextRef h)\<rparr>)"

definition contents :: "host \<Rightarrow> ref \<Rightarrow> jsval list" where
  "contents h r = (case arrays h r of Some xs \<Rightarrow> xs | None \<Rightarrow> [])"

text \<open>The registry and the providers of a host, as the definitions above take them.\<close>

definition view :: "host \<Rightarrow> world" where
  "view h = \<lparr>blockTypes = contents h (registry h), filters = hooks h, wpVersion = hostVersion h\<rparr>"

text \<open>\<open>getTextBlocks\<close> and \<open>getAllowedBlocks\<close> with the arrays they make.\<close>

definition getTextBlocks_heap :: "host \<Rightarrow> ref \<times> host" where
  "getTextBlocks_heap h =
     (let blocks = contents h (registry h);
          (filtered, h1) =
             allocate (filter (\<lambda>block. strictEq (optChain block ''category'') (JStr ''text''))
                         blocks) h;
          (names, h2) =
             allocate (map (\<lambda>block. optChain block ''name'') (contents h1 filtered)) h1
      in (names, h2))"

definition getAllowedBlocks_heap :: "host \<Rightarrow> (error + ref) \<times> host" where
  "getAllowedBlocks_heap h =
     (let (t1, h1) = getTextBlocks_heap h;
          blocks = applyFilters (view h1) allowedBlocksHook (JArr (contents h1 t1));
          (t2, h2) = getTextBlocks_heap h1;
          fields = applyFilters (view h2) allowedBlocksAndFieldsHook (JArr (contents h2 t2))
      in case arrayMap fieldBlockName fields of
           Inl e \<Rightarrow> (Inl e, h2)
         | Inr fieldBlocks \<Rightarrow>
             (let (fb, h3) = allocate fieldBlocks h2
              in case spread blocks of
                   Inl e \<Rightarrow> (Inl e, h3)
                 | Inr bs \<Rightarrow>
                     (let (result, h4) = allocate (bs @ contents h3 fb) h3
                      in (Inr result, h4))))"

text \<open>
  A heap is well formed when the registry is in it and nothing lies at or beyond the
  next address. A host is unchanged in another when its registry address, providers
  and version are the same and every address it had given out holds what it held; the
  other extends it when moreover it is well formed and has given out no less.
\<close>

definition wellFormed :: "host \<Rightarrow> bool" where
  "wellFormed h \<longleftrightarrow> registry h < nextRef h \<and> (\<forall>r. nextRef h \<le> r \<longrightarrow> arrays h r = None)"

definition unchanged :: "host \<Rightarrow> host \<Rightarrow> bool" where
  "unchanged h h' \<longleftrightarrow>
     registry h' = registry h \<and> hooks h' = hooks h \<and> hostVersion h' = hostVersion h
     \<and> (\<forall>r < nextRef h. arrays h' r = arrays h r)"

definition extends :: "host \<Rightarrow> host \<Rightarrow> bool" where
  "extends h h' \<longleftrightarrow> unchanged h h' \<and> wellFormed h' \<and> nextRef h \<le> nextRef h'"

text \<open>Two hosts with the same registry entries, at different addresses.\<close>

definition exampleHost :: host where
  "exampleHost =
     \<lparr>arrays = [0 \<mapsto> coreRegistry], nextRef = 1, registry = 0,
      hooks = (\<lambda>hook. []), hostVersion = ''6.6''\<rparr>"

definition movedHost :: host where
  "movedHost =
     \<lparr>arrays = [0 \<mapsto> [JNum 1], 3 \<mapsto> coreRegistry], nextRef = 4, registry = 3,
      hooks = (\<lambda>hook. if hook = ''search-replace-for-block-editor.caseSensitive''
                       then [(\<lambda>v. JBool True)] else []),
      hostVersion = ''6.5.2''\<rparr>"

section \<open>Theorems\<close>

lemma strictEq_JStr: "strictEq v (JStr s) \<longleftrightarrow> v = JStr s"
  by (auto simp: strictEq_def)

lemma filter_by_index:
  "map ((!) xs) (filter (\<lambda>i. P (xs ! i)) [0..<length xs]) = filter P xs"
proof -
  have "filter P (map ((!) xs) [0..<length xs]) = filter P xs"
    by (simp add: map_nth)
  then show ?thesis
    by (simp add: filter_map comp_def)
qed

text \<open>
  Claim C1. \<open>getTextBlocks\<close> returns exactly the names of the registered block types
  whose category is the string \<open>text\<close>: a value is in the result iff it is the name of
  a registered block of that category, and the result lists the names at the
  positions of those blocks, in increasing position (registry order).
\<close>

theorem getTextBlocks_text_names:
  "(v \<in> set (getTextBlocks w) \<longleftrightarrow>
      (\<exists>b \<in> set (getBlockTypes w).
         optChain b ''category'' = JStr ''text'' \<and> optChain b ''name'' = v))
   \<and> (\<exists>idx. sorted_wrt (<) idx
         \<and> set idx = {i. i < length (getBlockTypes w)
                        \<and> optChain (getBlockTypes w ! i) ''category'' = JStr ''text''}
         \<and> getTextBlocks w = map (\<lambda>i. optChain (getBlockTypes w ! i) ''name'') idx)"
proof
  show "v \<in> set (getTextBlocks w) \<longleftrightarrow>
      (\<exists>b \<in> set (getBlockTypes w).
         optChain b ''category'' = JStr ''text'' \<and> optChain b ''name'' = v)"
    by (auto simp: getTextBlocks_def strictEq_def)
next
  let ?reg = "getBlockTypes w"
  let ?P = "\<lambda>b. strictEq (optChain b ''category'') (JStr ''text'')"
  let ?idx = "filter (\<lambda>i. ?P (?reg ! i)) [0..<length ?reg]"
  have sorted: "sorted_wrt (<) ?idx"
    by (rule sorted_wrt_filter) simp
  have members: "set ?idx = {i. i < length ?reg
                        \<and> optChain (?reg ! i) ''category'' = JStr ''text''}"
    by (auto simp: strictEq_def)
  have "map ((!) ?reg) ?idx = filter ?P ?reg"
    by (rule filter_by_index)
  then have "getTextBlocks w = map (\<lambda>b. optChain b ''name'') (map ((!) ?reg) ?idx)"
    by (simp add: getTextBlocks_def)
  then have listed: "getTextBlocks w = map (\<lambda>i. optChain (?reg ! i) ''name'') ?idx"
    by (simp add: comp_def)
  from sorted members listed
  show "\<exists>idx. sorted_wrt (<) idx
         \<and> set idx = {i. i < length ?reg \<and> optChain (?reg ! i) ''category'' = JStr ''text''}
         \<and> getTextBlocks w = map (\<lambda>i. optChain (?reg ! i) ''name'') idx"
    by blast
qed

theorem getTextBlocks_text_names_witness:
  "JStr ''core/heading'' \<in> set (getTextBlocks plainWorld)
   \<and> JStr ''core/image'' \<notin> set (getTextBlocks plainWorld)"
  using getTextBlocks_text_names [of "JStr ''core/heading''" plainWorld]
    getTextBlocks_text_names [of "JStr ''core/image''" plainWorld]
  by (simp add: plainWorld_def coreRegistry_def getBlockTypes_def optChain_def)

subsection \<open>The map over the second hook's output\<close>

lemma mapE_fieldBlockName_strings:
  "\<forall>x \<in> set xs. \<exists>s. x = JStr s \<Longrightarrow>
     mapE fieldBlockName xs = Inr (replicate (length xs) JUndefined)"
  by (induction xs) (auto simp: fieldBlockName_def)

subsection \<open>Composition of the two rule sources\<close>

text \<open>
  Claim C2. The claim reads \<open>getAllowedBlocks\<close> as the union of the block names of the
  first hook and the names of the entries of the second hook, and nothing else. With
  one text block registered and no provider on either hook, the second hook's output
  is the list of name strings, and the result holds an \<open>undefined\<close> entry after the
  name: the function evaluated at that input.
\<close>

theorem getAllowedBlocks_default_undefined:
  "getAllowedBlocks paragraphWorld = Inr [JStr ''core/paragraph'', JUndefined]"
  by (simp add: getAllowedBlocks_def getAllowedBlocksAndFields_def getTextBlocks_def
      getBlockTypes_def applyFilters_def paragraphWorld_def optChain_def strictEq_def
      fieldBlockName_def)

text \<open>
  Claim C3. With no provider on either hook, \<open>getAllowedBlocksAndFields\<close> is the list
  of text-block names; when these names are strings, as the registry has them,
  \<open>getAllowedBlocks\<close> is that list followed by one \<open>undefined\<close> per text block:
  for \<open>n\<close> text blocks its length is \<open>2 * n\<close> and its last \<open>n\<close> entries are \<open>undefined\<close>.
\<close>

theorem getAllowedBlocks_no_filters:
  assumes "filters w allowedBlocksHook = []"
    and "filters w allowedBlocksAndFieldsHook = []"
    and "\<forall>b \<in> set (getBlockTypes w).
           optChain b ''category'' = JStr ''text'' \<longrightarrow> (\<exists>s. optChain b ''name'' = JStr s)"
  shows "getAllowedBlocksAndFields w = JArr (getTextBlocks w)
    \<and> (\<exists>n r. n = length (filter (\<lambda>b. optChain b ''category'' = JStr ''text'')
                              (getBlockTypes w))
          \<and> getAllowedBlocks w = Inr r
          \<and> length r = 2 * n
          \<and> take n r = getTextBlocks w
          \<and> drop n r = replicate n JUndefined)"
proof -
  let ?n = "length (filter (\<lambda>b. optChain b ''category'' = JStr ''text'') (getBlockTypes w))"
  have fields: "getAllowedBlocksAndFields w = JArr (getTextBlocks w)"
    using assms(2) by (simp add: getAllowedBlocksAndFields_def applyFilters_def)
  have blocks: "applyFilters w allowedBlocksHook (JArr (getTextBlocks w)) = JArr (getTextBlocks w)"
    using assms(1) by (simp add: applyFilters_def)
  have len: "length (getTextBlocks w) = ?n"
    by (simp add: getTextBlocks_def strictEq_JStr)
  have "\<forall>x \<in> set (getTextBlocks w). \<exists>s. x = JStr s"
    using assms(3) by (auto simp: getTextBlocks_def strictEq_JStr)
  then have "mapE fieldBlockName (getTextBlocks w) = Inr (replicate ?n JUndefined)"
    using mapE_fieldBlockName_strings [of "getTextBlocks w"] len by simp
  then have "getAllowedBlocks w = Inr (getTextBlocks w @ replicate ?n JUndefined)"
    using fields blocks by (simp add: getAllowedBlocks_def)
  with fields len show ?thesis
    by simp
qed

theorem getAllowedBlocks_no_filters_witness:
  "getAllowedBlocksAndFields plainWorld = JArr [JStr ''core/paragraph'', JStr ''core/heading'']
   \<and> (\<exists>r. getAllowedBlocks plainWorld = Inr r \<and> length r = 4
          \<and> take 2 r = [JStr ''core/paragraph'', JStr ''core/heading'']
          \<and> drop 2 r = [JUndefined, JUndefined])"
proof -
  have none: "filters plainWorld allowedBlocksHook = []"
    "filters plainWorld allowedBlocksAndFieldsHook = []"
    by (simp_all add: plainWorld_def)
  have strings: "\<forall>b \<in> set (getBlockTypes plainWorld).
      optChain b ''category'' = JStr ''text'' \<longrightarrow> (\<exists>s. optChain b ''name'' = JStr s)"
    by (simp add: plainWorld_def coreRegistry_def getBlockTypes_def optChain_def)
  have count: "length (filter (\<lambda>b. optChain b ''category'' = JStr ''text'')
      (getBlockTypes plainWorld)) = 2"
    by (simp add: plainWorld_def coreRegistry_def getBlockTypes_def optChain_def)
  have names: "getTextBlocks plainWorld = [JStr ''core/paragraph'', JStr ''core/heading'']"
    by (simp add: getTextBlocks_def plainWorld_def coreRegistry_def getBlockTypes_def
        optChain_def strictEq_JStr)
  have undefs: "replicate 2 JUndefined = [JUndefined, JUndefined]"
    by (simp add: numeral_2_eq_2)
  from getAllowedBlocks_no_filters [OF none strings] show ?thesis
    unfolding count names by (auto simp: undefs)
qed


subsection \<open>Doubles\<close>

lemma bitLength_pos: "0 < n \<Longrightarrow> 0 < bitLength n"
proof (induction n rule: bitLength.induct)
  case (1 n)
  show ?case
  proof (cases "0 < n div 2")
    case True
    with "1.IH" "1.prems" have "0 < bitLength (n div 2)" by simp
    with "1.prems" show ?thesis by (subst bitLength.simps) simp
  next
    case False
    then have "bitLength (n div 2) = 0" by (subst bitLength.simps) simp
    with "1.prems" show ?thesis by (subst bitLength.simps) simp
  qed
qed

lemma bitLength_bounds:
  "0 < n \<Longrightarrow> 2 ^ nat (bitLength n - 1) \<le> n \<and> n < 2 ^ nat (bitLength n)"
proof (induction n rule: bitLength.induct)
  case (1 n)
  have len: "bitLength n = 1 + bitLength (n div 2)"
    using "1.prems" by (subst bitLength.simps) simp
  show ?case
  proof (cases "0 < n div 2")
    case False
    with "1.prems" have "n = 1" by simp
    then show ?thesis
      by (simp add: bitLength.simps [of 1] bitLength.simps [of 0])
  next
    case True
    with "1.IH" "1.prems" have IH: "2 ^ nat (bitLength (n div 2) - 1) \<le> n div 2"
      "n div 2 < 2 ^ nat (bitLength (n div 2))" by simp_all
    define k where "k = nat (bitLength (n div 2) - 1)"
    have k: "bitLength (n div 2) = 1 + int k"
      using bitLength_pos [OF True] by (simp add: k_def)
    from IH have "2 * 2 ^ k \<le> n" "n < 2 * 2 ^ Suc k"
      unfolding k by (simp_all add: nat_add_distrib)
    then show ?thesis
      unfolding len k by (simp add: nat_add_distrib)
  qed
qed

lemma roundHalfEven_int: "roundHalfEven (of_int m) = m"
  by (simp add: roundHalfEven_def)

text \<open>An integer below \<open>2 ^ 53\<close> that is not negative is a double.\<close>

lemma fl_int:
  assumes "0 \<le> n" and "n < 2 ^ 53"
  shows "fl (of_int n) = Finite (of_int n)"
proof (cases "n = 0")
  case True
  then show ?thesis by (simp add: fl_def)
next
  case False
  with assms have pos: "0 < n" by simp
  define b where "b = bitLength n"
  from bitLength_bounds [OF pos] have low: "2 ^ nat (b - 1) \<le> n" and high: "n < 2 ^ nat b"
    by (simp_all add: b_def)
  from bitLength_pos [OF pos] have b1: "1 \<le> b" by (simp add: b_def)
  have b53: "b \<le> 53"
  proof (rule ccontr)
    assume "\<not> b \<le> 53"
    then have "53 \<le> nat (b - 1)" by simp
    then have "(2::int) ^ 53 \<le> 2 ^ nat (b - 1)"
      by (intro power_increasing) simp_all
    with low assms(2) show False by linarith
  qed
  have one: "bitLength 1 = 1"
    by (simp add: bitLength.simps [of 1] bitLength.simps [of 0])
  have "pow2 (b - 1) \<le> of_int n"
  proof -
    have "(of_int (2 ^ nat (b - 1)) :: rat) \<le> of_int n"
      using low by (simp only: of_int_le_iff)
    then show ?thesis using b1 by (simp add: pow2_def)
  qed
  then have e: "exponentOf (of_int n) = b - 1"
    by (simp add: exponentOf_def one b_def)
  define k where "k = nat (53 - b)"
  have ulp: "pow2 (max (b - 1) (- 1022) - 52) = 1 / 2 ^ k"
    using b1 b53 by (auto simp: pow2_def k_def max_def intro!: arg_cong [where f = "power 2"])
  have quot: "(of_int n :: rat) / (1 / 2 ^ k) = of_int (n * 2 ^ k)"
    by simp
  have restored: "(of_int (n * 2 ^ k) :: rat) * (1 / 2 ^ k) = of_int n"
    by simp
  have small: "\<not> pow2 1024 \<le> (of_int n :: rat)"
  proof -
    have "(2::int) ^ 53 \<le> 2 ^ 1024" by (intro power_increasing) simp_all
    with assms(2) have "n < 2 ^ 1024" by linarith
    then have "(of_int n :: rat) < of_int (2 ^ 1024)" by (simp only: of_int_less_iff)
    then show ?thesis by (simp add: pow2_def)
  qed
  have magnitude: "\<bar>of_int n :: rat\<bar> = of_int n" using pos by simp
  have nz: "(of_int n :: rat) \<noteq> 0" "\<not> (of_int n :: rat) < 0" using pos by simp_all
  show ?thesis
    unfolding fl_def Let_def magnitude e ulp quot roundHalfEven_int restored
    using small nz by simp
qed

lemma jsAdd_int:
  "0 \<le> a \<Longrightarrow> 0 \<le> b \<Longrightarrow> a + b < 2 ^ 53 \<Longrightarrow>
     jsAdd (Finite (of_int a)) (Finite (of_int b)) = Finite (of_int (a + b))"
  using fl_int [of "a + b"] by simp

lemma jsMul_int:
  "0 \<le> a \<Longrightarrow> 0 \<le> b \<Longrightarrow> a * b < 2 ^ 53 \<Longrightarrow>
     jsMul (Finite (of_int a)) (Finite (of_int b)) = Finite (of_int (a * b))"
  using fl_int [of "a * b"] by simp

subsection \<open>The positional sum\<close>

lemma positional_Nil: "positional [] = 0"
  by (simp add: positional_def)

lemma positional_Cons: "positional (x # xs) = x * 10 ^ length xs + positional xs"
proof -
  let ?f = "\<lambda>i. (x # xs) ! i * (10::int) ^ (length (x # xs) - 1 - i)"
  have "positional (x # xs) = (\<Sum>i<Suc (length xs). ?f i)"
    by (simp only: positional_def list.size) simp
  also have "\<dots> = ?f 0 + (\<Sum>i<length xs. ?f (Suc i))"
    by (rule sum.lessThan_Suc_shift)
  also have "\<dots> = x * 10 ^ length xs + positional xs"
    by (simp add: positional_def)
  finally show ?thesis .
qed

lemma positional_digits:
  "\<forall>v \<in> set vs. 0 \<le> v \<and> v \<le> 9 \<Longrightarrow> 0 \<le> positional vs \<and> positional vs < 10 ^ length vs"
proof (induction vs)
  case Nil
  then show ?case by (simp add: positional_Nil)
next
  case (Cons x xs)
  define p :: int where "p = 10 ^ length xs"
  from Cons have IH: "0 \<le> positional xs" "positional xs < p"
    and x: "0 \<le> x" "x \<le> 9"
    by (simp_all add: p_def)
  have "0 \<le> p"
    by (simp add: p_def)
  with x have "x * p \<le> 9 * p" "0 \<le> x * p"
    by (simp_all add: mult_right_mono)
  with IH have "0 \<le> x * p + positional xs" "x * p + positional xs < 10 * p"
    by linarith+
  then show ?case
    by (simp add: positional_Cons p_def)
qed

lemma positional_small:
  assumes "length vs \<le> 15" and "\<forall>v \<in> set vs. 0 \<le> v \<and> v \<le> 9"
  shows "positional vs < 2 ^ 53"
proof -
  from assms(2) have "positional vs < 10 ^ length vs"
    using positional_digits [of vs] by simp
  also from assms(1) have "(10::int) ^ length vs \<le> 10 ^ 15"
    by (intro power_increasing) simp_all
  also have "\<dots> < 2 ^ 53"
    by simp
  finally show ?thesis .
qed

lemma positional_order:
  assumes "length s = length a"
    and "\<forall>v \<in> set s. 0 \<le> v \<and> v \<le> 9"
    and "\<forall>v \<in> set a. 0 \<le> v \<and> v \<le> 9"
  shows "positional s < positional a \<longleftrightarrow> versionLess s a"
  using assms
proof (induction s a rule: list_induct2)
  case Nil
  then show ?case by (simp add: positional_Nil)
next
  case (Cons x xs y ys)
  define p :: int where "p = 10 ^ length xs"
  define gx where "gx = positional xs"
  define gy where "gy = positional ys"
  from Cons have IH: "gx < gy \<longleftrightarrow> versionLess xs ys"
    by (simp add: gx_def gy_def)
  from Cons.prems have bx: "0 \<le> gx" "gx < p"
    using positional_digits [of xs] by (simp_all add: p_def gx_def)
  from Cons.prems Cons.hyps have "by": "0 \<le> gy" "gy < p"
    using positional_digits [of ys] by (simp_all add: p_def gy_def)
  have less: "x * p + gx < y * p + gy" if "x < y"
  proof -
    from that have "x + 1 \<le> y" by simp
    moreover have "0 \<le> p" by (simp add: p_def)
    ultimately have "(x + 1) * p \<le> y * p"
      by (rule mult_right_mono)
    then have "x * p + p \<le> y * p"
      by (simp add: algebra_simps)
    with bx "by" show ?thesis by linarith
  qed
  have greater: "\<not> x * p + gx < y * p + gy" if "y < x"
  proof -
    from that have "y + 1 \<le> x" by simp
    moreover have "0 \<le> p" by (simp add: p_def)
    ultimately have "(y + 1) * p \<le> x * p"
      by (rule mult_right_mono)
    then have "y * p + p \<le> x * p"
      by (simp add: algebra_simps)
    with bx "by" show ?thesis by linarith
  qed
  have "x * p + gx < y * p + gy \<longleftrightarrow> x < y \<or> (x = y \<and> gx < gy)"
    using less greater by (cases x y rule: linorder_cases) auto
  with IH show ?case
    using Cons.hyps by (simp add: positional_Cons p_def gx_def gy_def)
qed

text \<open>
  The \<open>reduce\<close> on integers that are not negative, as long as the sum stays below
  \<open>2 ^ 53\<close> and the engine's powers of ten are the powers: every product and every
  partial sum is an integer below \<open>2 ^ 53\<close>, which the doubles hold.
\<close>

lemma base10_foldl:
  assumes pow: "\<forall>k<N. Math_pow js (Finite 10) (Finite (of_nat k)) = Finite (10 ^ k)"
    and "length vs \<le> N"
    and "\<forall>v \<in> set vs. 0 \<le> v"
    and "(\<Sum>i<length vs. vs ! i * 10 ^ (N - 1 - i)) < (2::int) ^ 53"
  shows "foldl (\<lambda>sum (value, index).
              jsAdd sum (jsMul value (Math_pow js (Finite 10) (Finite (of_nat (N - 1 - index))))))
       (Finite 0) (zip (map (\<lambda>d. Finite (of_int d)) vs) [0..<length vs])
     = Finite (of_int (\<Sum>i<length vs. vs ! i * 10 ^ (N - 1 - i)))"
  using assms(2-)
proof (induction vs rule: rev_induct)
  case Nil
  then show ?case by simp
next
  case (snoc x xs)
  let ?S = "\<Sum>i<length xs. xs ! i * (10::int) ^ (N - 1 - i)"
  let ?k = "N - 1 - length xs"
  have same: "(\<Sum>i<length xs. (xs @ [x]) ! i * (10::int) ^ (N - 1 - i)) = ?S"
    by (rule sum.cong) (simp_all add: nth_append)
  from snoc.prems have x: "0 \<le> x" and xs: "\<forall>v \<in> set xs. 0 \<le> v" and len: "length xs < N"
    by simp_all
  have S0: "0 \<le> ?S"
    using xs by (intro sum_nonneg) (simp add: nth_mem)
  have P0: "0 \<le> x * 10 ^ ?k"
    using x by simp
  from snoc.prems(3) have total: "?S + x * 10 ^ ?k < 2 ^ 53"
    using same by simp
  with S0 P0 have S: "?S < 2 ^ 53" and P: "x * 10 ^ ?k < 2 ^ 53"
    by linarith+
  from snoc.IH xs len S have IH: "foldl (\<lambda>sum (value, index).
              jsAdd sum (jsMul value (Math_pow js (Finite 10) (Finite (of_nat (N - 1 - index))))))
       (Finite 0) (zip (map (\<lambda>d. Finite (of_int d)) xs) [0..<length xs]) = Finite (of_int ?S)"
    by simp
  have "?k < N"
    using len by simp
  from pow [rule_format, OF this]
  have power: "Math_pow js (Finite 10) (Finite (of_nat ?k)) = Finite (of_int (10 ^ ?k))"
    by simp
  have prod: "jsMul (Finite (of_int x)) (Finite (of_int (10 ^ ?k))) = Finite (of_int (x * 10 ^ ?k))"
    using x P by (intro jsMul_int) simp_all
  have add: "jsAdd (Finite (of_int ?S)) (Finite (of_int (x * 10 ^ ?k)))
      = Finite (of_int (?S + x * 10 ^ ?k))"
    using S0 P0 total by (intro jsAdd_int)
  define step where "step = (\<lambda>sum (value, index).
      jsAdd sum (jsMul value (Math_pow js (Finite 10) (Finite (of_nat (N - 1 - index))))))"
  have last: "step (Finite (of_int ?S)) (Finite (of_int x), length xs)
      = Finite (of_int (?S + x * 10 ^ ?k))"
    unfolding step_def prod.case power prod add ..
  have split: "zip (map (\<lambda>d. Finite (of_int d)) (xs @ [x])) [0..<length (xs @ [x])]
      = zip (map (\<lambda>d. Finite (of_int d)) xs) [0..<length xs] @ [(Finite (of_int x), length xs)]"
    by simp
  have total_sum: "(\<Sum>i<length (xs @ [x]). (xs @ [x]) ! i * (10::int) ^ (N - 1 - i))
      = ?S + x * 10 ^ ?k"
    using same by simp
  have "foldl step (Finite 0) (zip (map (\<lambda>d. Finite (of_int d)) (xs @ [x])) [0..<length (xs @ [x])])
      = step (foldl step (Finite 0) (zip (map (\<lambda>d. Finite (of_int d)) xs) [0..<length xs]))
          (Finite (of_int x), length xs)"
    unfolding split by simp
  also have "\<dots> = Finite (of_int (?S + x * 10 ^ ?k))"
    using IH last unfolding step_def by simp
  finally show ?case
    unfolding step_def total_sum .
qed

lemma getNumberToBase10_exact:
  assumes "\<forall>k<length vs. Math_pow js (Finite 10) (Finite (of_nat k)) = Finite (10 ^ k)"
    and "\<forall>v \<in> set vs. 0 \<le> v"
    and "positional vs < 2 ^ 53"
  shows "getNumberToBase10 js (map (\<lambda>d. Finite (of_int d)) vs) = Finite (of_int (positional vs))"
  using base10_foldl [of "length vs" js vs] assms
  by (simp add: getNumberToBase10_def positional_def)




lemma roundHalfEven_upper: "of_int (roundHalfEven q) \<le> q + 1"
proof -
  have "roundHalfEven q \<le> \<lfloor>q\<rfloor> + 1"
    by (simp add: roundHalfEven_def Let_def)
  then have "(of_int (roundHalfEven q) :: rat) \<le> of_int (\<lfloor>q\<rfloor> + 1)"
    by (simp only: of_int_le_iff)
  also have "\<dots> \<le> q + 1"
    by simp
  finally show ?thesis .
qed

text \<open>An integer of more than 53 bits is rounded at its lowest bits.\<close>

lemma fl_long_int:
  assumes "53 \<le> bitLength n" and "n < 2 ^ 1023"
  shows "fl (of_int n)
    = Finite (of_int (roundHalfEven (of_int n / 2 ^ nat (bitLength n - 53)))
        * 2 ^ nat (bitLength n - 53))"
proof -
  define b where "b = bitLength n"
  have pos: "0 < n"
  proof (rule ccontr)
    assume "\<not> 0 < n"
    then have "bitLength n = 0" by (subst bitLength.simps) simp
    with assms(1) show False by simp
  qed
  from bitLength_bounds [OF pos] have low: "2 ^ nat (b - 1) \<le> n"
    by (simp add: b_def)
  from assms(1) have b53: "53 \<le> b" by (simp add: b_def)
  have one: "bitLength 1 = 1"
    by (simp add: bitLength.simps [of 1] bitLength.simps [of 0])
  have "pow2 (b - 1) \<le> of_int n"
  proof -
    have "(of_int (2 ^ nat (b - 1)) :: rat) \<le> of_int n"
      using low by (simp only: of_int_le_iff)
    then show ?thesis using b53 by (simp add: pow2_def)
  qed
  then have e: "exponentOf (of_int n) = b - 1"
    by (simp add: exponentOf_def one b_def)
  define k where "k = nat (b - 53)"
  have ulp: "pow2 (max (b - 1) (- 1022) - 52) = 2 ^ k"
    using b53 by (auto simp: pow2_def k_def max_def intro!: arg_cong [where f = "power 2"])
  define m where "m = roundHalfEven (of_int n / 2 ^ k)"
  have "(of_int m :: rat) \<le> of_int n / 2 ^ k + 1"
    unfolding m_def by (rule roundHalfEven_upper)
  then have "(of_int m :: rat) * 2 ^ k \<le> (of_int n / 2 ^ k + 1) * 2 ^ k"
    by (intro mult_right_mono) simp_all
  also have "\<dots> = of_int n + 2 ^ k"
    by (simp add: field_simps)
  also have "\<dots> \<le> of_int n + of_int n"
  proof -
    have "k \<le> nat (b - 1)" using b53 by (simp add: k_def)
    then have "(2::int) ^ k \<le> 2 ^ nat (b - 1)"
      by (intro power_increasing) simp_all
    with low have "2 ^ k \<le> n" by linarith
    then have "(of_int (2 ^ k) :: rat) \<le> of_int n"
      by (simp only: of_int_le_iff)
    then show ?thesis by simp
  qed
  also have "\<dots> < pow2 1024"
  proof -
    from assms(2) have "2 * n < 2 ^ 1024" by simp
    then have "(of_int (2 * n) :: rat) < of_int (2 ^ 1024)"
      by (simp only: of_int_less_iff)
    then show ?thesis by (simp add: pow2_def)
  qed
  finally have small: "\<not> pow2 1024 \<le> (of_int m :: rat) * 2 ^ k"
    by simp
  have magnitude: "\<bar>of_int n :: rat\<bar> = of_int n" using pos by simp
  have nz: "(of_int n :: rat) \<noteq> 0" "\<not> (of_int n :: rat) < 0" using pos by simp_all
  show ?thesis
    unfolding fl_def Let_def magnitude e ulp
    using small nz by (simp add: m_def k_def b_def)
qed

lemma bitLength_big: "bitLength 10000000000000000 = 54" "bitLength 10000000000000001 = 54"
  by (simp_all add: bitLength.simps)

lemma fl_big_exact: "fl 10000000000000000 = Finite 10000000000000000"
  using fl_long_int [of 10000000000000000]
  by (simp add: bitLength_big roundHalfEven_def Let_def)

lemma fl_big_rounds: "fl 10000000000000001 = Finite 10000000000000000"
proof -
  have half: "\<lfloor>(10000000000000001::rat) / 2\<rfloor> = 5000000000000000"
    by (rule floor_unique) simp_all
  show ?thesis
    using fl_long_int [of 10000000000000001]
    by (simp add: bitLength_big roundHalfEven_def Let_def half)
qed

subsection \<open>Version numbers\<close>

lemma fl_numeral: "numeral k < (2::int) ^ 53 \<Longrightarrow> fl (numeral k) = Finite (numeral k)"
  using fl_int [of "numeral k"] by simp

lemma fl_zero: "fl 0 = Finite 0"
  by (simp add: fl_def)

lemma fl_one: "fl 1 = Finite 1"
  using fl_int [of 1] by simp

lemma integerPow_ten:
  assumes "k \<le> 15"
  shows "integerPow (Finite 10) (Finite (of_nat k)) = Finite (10 ^ k)"
proof -
  from assms have "(10::int) ^ k \<le> 10 ^ 15"
    by (intro power_increasing) simp_all
  then have "(10::int) ^ k < 2 ^ 53"
    by simp
  then have "fl (of_int (10 ^ k)) = Finite (of_int (10 ^ k))"
    by (intro fl_int) simp_all
  then show ?thesis
    by simp
qed

lemma exampleEngine_pow:
  assumes "N \<le> 16"
  shows "\<forall>k<N. Math_pow exampleEngine (Finite 10) (Finite (of_nat k)) = Finite (10 ^ k)"
proof (intro allI impI)
  fix k assume "k < N"
  with assms have "k \<le> 15" by simp
  from integerPow_ten [OF this]
  show "Math_pow exampleEngine (Finite 10) (Finite (of_nat k)) = Finite (10 ^ k)"
    unfolding exampleEngine_def by (simp only: engine.select_convs)
qed

lemma decimalNumber_examples:
  "decimalNumber ''0'' = Finite 0"
  "decimalNumber ''1'' = Finite 1"
  "decimalNumber ''2'' = Finite 2"
  "decimalNumber ''5'' = Finite 5"
  "decimalNumber ''6'' = Finite 6"
  "decimalNumber ''7'' = Finite 7"
  "decimalNumber ''10'' = Finite 10"
  "decimalNumber ''7-RC1'' = NaN"
  by (simp_all add: decimalNumber_def isDigit_def digitValue_def fl_numeral fl_zero fl_one)


text \<open>The comparison on versions whose components the engine reads as small integers.\<close>

lemma isWpVersion_exact:
  assumes sys: "map (Number js) (splitDot (wpVersion w)) = map (\<lambda>d. Finite (of_int d)) sys"
    and arg: "map (Number js) (splitDot v) = map (\<lambda>d. Finite (of_int d)) arg"
    and "\<forall>k<length sys. Math_pow js (Finite 10) (Finite (of_nat k)) = Finite (10 ^ k)"
    and "\<forall>k<length arg. Math_pow js (Finite 10) (Finite (of_nat k)) = Finite (10 ^ k)"
    and "\<forall>d \<in> set sys. 0 \<le> d" and "\<forall>d \<in> set arg. 0 \<le> d"
    and "positional sys < 2 ^ 53" and "positional arg < 2 ^ 53"
  shows "isWpVersion js w v \<longleftrightarrow> positional arg \<le> positional sys"
proof -
  have "getNumberToBase10 js (map (\<lambda>d. Finite (of_int d)) sys) = Finite (of_int (positional sys))"
    using assms by (intro getNumberToBase10_exact)
  moreover
  have "getNumberToBase10 js (map (\<lambda>d. Finite (of_int d)) arg) = Finite (of_int (positional arg))"
    using assms by (intro getNumberToBase10_exact)
  ultimately show ?thesis
    by (simp add: isWpVersion_def sys arg not_less)
qed

lemma exampleEngine_version:
  assumes "map decimalNumber (splitDot (wpVersion w)) = map (\<lambda>d. Finite (of_int d)) sys"
    and "map decimalNumber (splitDot v) = map (\<lambda>d. Finite (of_int d)) arg"
    and "length sys \<le> 15" and "length arg \<le> 15"
    and "\<forall>d \<in> set sys. 0 \<le> d" and "\<forall>d \<in> set arg. 0 \<le> d"
    and "positional sys < 2 ^ 53" and "positional arg < 2 ^ 53"
  shows "isWpVersion exampleEngine w v \<longleftrightarrow> positional arg \<le> positional sys"
proof (rule isWpVersion_exact)
  show "map (Number exampleEngine) (splitDot (wpVersion w)) = map (\<lambda>d. Finite (of_int d)) sys"
    using assms(1) by (simp add: exampleEngine_def)
  show "map (Number exampleEngine) (splitDot v) = map (\<lambda>d. Finite (of_int d)) arg"
    using assms(2) by (simp add: exampleEngine_def)
  show "\<forall>k<length sys. Math_pow exampleEngine (Finite 10) (Finite (of_nat k)) = Finite (10 ^ k)"
    using assms(3) by (intro exampleEngine_pow) simp
  show "\<forall>k<length arg. Math_pow exampleEngine (Finite 10) (Finite (of_nat k)) = Finite (10 ^ k)"
    using assms(4) by (intro exampleEngine_pow) simp
qed (use assms in simp_all)

lemma isWpVersion_plainWorld: "\<not> isWpVersion exampleEngine plainWorld ''6.6.0''"
  using exampleEngine_version [of plainWorld "[6, 6]" "''6.6.0''" "[6, 6, 0]"]
  by (simp add: plainWorld_def decimalNumber_examples positional_Cons positional_Nil)

lemma jsAdd_NaN: "jsAdd a NaN = NaN"
  by (cases a) simp_all

lemma isWpVersion_candidateWorld: "isWpVersion exampleEngine candidateWorld ''6.6.0''"
proof -
  have "getNumberToBase10 exampleEngine [Finite 6, NaN] = NaN"
    by (simp add: getNumberToBase10_def upt_rec [of 0] upt_rec [of 1] upt_rec [of 2] jsAdd_NaN)
  then show ?thesis
    by (simp add: isWpVersion_def candidateWorld_def exampleEngine_def decimalNumber_examples)
qed


lemma base10_rounds:
  "getNumberToBase10 exampleEngine
     (map (\<lambda>d. Finite (of_int d)) [1, 0, 0, 0, 0, 0, 0, 0, 0, 0, 0, 0, 0, 0, 0, 0, 1])
   = Finite 10000000000000000"
  by (simp add: getNumberToBase10_def exampleEngine_def fl_big_exact fl_big_rounds fl_numeral
      fl_zero fl_one)

lemma positional_rounds:
  "positional [1, 0, 0, 0, 0, 0, 0, 0, 0, 0, 0, 0, 0, 0, 0, 0, 1] = 10000000000000001"
  by (simp add: positional_Cons positional_Nil)


text \<open>
  Claim C10, as stated. The claim makes \<open>getNumberToBase10\<close> the exact integer sum for
  every digit list and lets the comparison agree with the ordering of versions only
  when the numbers of components are the same. With the system version 6.6.0 and the
  argument 6.5 the numbers of components differ and the comparison (660 against 65)
  agrees with the ordering; with 6.10.0 against 7.0.0 they are the same and the
  comparison (700 against 700) answers true for a smaller version; and for the 17
  digits of \<open>10 ^ 16 + 1\<close> the result is \<open>10 ^ 16\<close>, the nearest double.
\<close>

theorem isWpVersion_base10_refuted:
  "isWpVersion exampleEngine (plainWorld\<lparr>wpVersion := ''6.6.0''\<rparr>) ''6.5''
   \<and> \<not> versionLess [6, 6, 0] [6, 5]
   \<and> isWpVersion exampleEngine (plainWorld\<lparr>wpVersion := ''6.10.0''\<rparr>) ''7.0.0''
   \<and> versionLess [6, 10, 0] [7, 0, 0]
   \<and> getNumberToBase10 exampleEngine
         [Finite 1, Finite 0, Finite 0, Finite 0, Finite 0, Finite 0, Finite 0, Finite 0,
          Finite 0, Finite 0, Finite 0, Finite 0, Finite 0, Finite 0, Finite 0, Finite 0,
          Finite 1]
       = Finite 10000000000000000
   \<and> positional [1, 0, 0, 0, 0, 0, 0, 0, 0, 0, 0, 0, 0, 0, 0, 0, 1] = 10000000000000001"
proof -
  have "isWpVersion exampleEngine (plainWorld\<lparr>wpVersion := ''6.6.0''\<rparr>) ''6.5''"
    using exampleEngine_version [of "plainWorld\<lparr>wpVersion := ''6.6.0''\<rparr>" "[6, 6, 0]" "''6.5''"
        "[6, 5]"]
    by (simp add: decimalNumber_examples positional_Cons positional_Nil)
  moreover
  have "isWpVersion exampleEngine (plainWorld\<lparr>wpVersion := ''6.10.0''\<rparr>) ''7.0.0''"
    using exampleEngine_version [of "plainWorld\<lparr>wpVersion := ''6.10.0''\<rparr>" "[6, 10, 0]"
        "''7.0.0''" "[7, 0, 0]"]
    by (simp add: decimalNumber_examples positional_Cons positional_Nil)
  moreover
  have "getNumberToBase10 exampleEngine
         [Finite 1, Finite 0, Finite 0, Finite 0, Finite 0, Finite 0, Finite 0, Finite 0,
          Finite 0, Finite 0, Finite 0, Finite 0, Finite 0, Finite 0, Finite 0, Finite 0,
          Finite 1]
       = Finite 10000000000000000"
    using base10_rounds by simp
  ultimately show ?thesis
    using positional_rounds by simp
qed

text \<open>
  Claim C10, amended. For integers that are not negative and whose positional sum is
  below \<open>2 ^ 53\<close> (every list of at most 15 single digits), read by an engine whose
  powers of ten are the powers, \<open>getNumberToBase10\<close> is the exact sum of the
  \<open>v_i * 10 ^ (n - 1 - i)\<close>, and \<open>isWpVersion\<close> is true iff the sum of the system
  version is not less than the sum of the argument. When moreover the two versions
  have the same number of components and every component is at most 9, this is the
  ordering of versions.
\<close>

theorem isWpVersion_base10:
  assumes sys: "map (Number js) (splitDot (wpVersion w)) = map (\<lambda>d. Finite (of_int d)) sys"
    and arg: "map (Number js) (splitDot v) = map (\<lambda>d. Finite (of_int d)) arg"
    and pow: "\<forall>k<max (length sys) (length arg).
                Math_pow js (Finite 10) (Finite (of_nat k)) = Finite (10 ^ k)"
    and nonneg: "\<forall>d \<in> set sys \<union> set arg. 0 \<le> d"
    and small: "positional sys < 2 ^ 53 \<and> positional arg < 2 ^ 53"
  shows "getNumberToBase10 js (map (Number js) (splitDot (wpVersion w)))
           = Finite (of_int (positional sys))
    \<and> getNumberToBase10 js (map (Number js) (splitDot v)) = Finite (of_int (positional arg))
    \<and> (isWpVersion js w v \<longleftrightarrow> positional arg \<le> positional sys)
    \<and> (length sys = length arg \<and> (\<forall>d \<in> set sys \<union> set arg. d \<le> 9) \<longrightarrow>
          (isWpVersion js w v \<longleftrightarrow> \<not> versionLess sys arg))
    \<and> (length ds \<le> 15 \<and> (\<forall>d \<in> set ds. 0 \<le> d \<and> d \<le> 9) \<longrightarrow> positional ds < 2 ^ 53)"
proof (intro conjI impI)
  from pow have pows: "\<forall>k<length sys. Math_pow js (Finite 10) (Finite (of_nat k)) = Finite (10 ^ k)"
    and powa: "\<forall>k<length arg. Math_pow js (Finite 10) (Finite (of_nat k)) = Finite (10 ^ k)"
    by simp_all
  from nonneg have nns: "\<forall>d \<in> set sys. 0 \<le> d" and nna: "\<forall>d \<in> set arg. 0 \<le> d"
    by simp_all
  show "getNumberToBase10 js (map (Number js) (splitDot (wpVersion w)))
      = Finite (of_int (positional sys))"
    unfolding sys using pows nns small by (intro getNumberToBase10_exact) simp_all
  show "getNumberToBase10 js (map (Number js) (splitDot v)) = Finite (of_int (positional arg))"
    unfolding arg using powa nna small by (intro getNumberToBase10_exact) simp_all
  show compare: "isWpVersion js w v \<longleftrightarrow> positional arg \<le> positional sys"
    using sys arg pows powa nns nna small by (intro isWpVersion_exact) simp_all
  show "isWpVersion js w v \<longleftrightarrow> \<not> versionLess sys arg"
    if "length sys = length arg \<and> (\<forall>d \<in> set sys \<union> set arg. d \<le> 9)"
  proof -
    from that nonneg have "positional sys < positional arg \<longleftrightarrow> versionLess sys arg"
      by (intro positional_order) auto
    with compare show ?thesis by auto
  qed
  show "positional ds < 2 ^ 53" if "length ds \<le> 15 \<and> (\<forall>d \<in> set ds. 0 \<le> d \<and> d \<le> 9)"
    using that by (intro positional_small) simp_all
qed

theorem isWpVersion_base10_witness:
  "getNumberToBase10 exampleEngine (map decimalNumber (splitDot ''5.6.1'')) = Finite 561
   \<and> getNumberToBase10 exampleEngine (map decimalNumber (splitDot ''6.6'')) = Finite 66
   \<and> getNumberToBase10 exampleEngine (map decimalNumber (splitDot ''6.6.0'')) = Finite 660
   \<and> \<not> isWpVersion exampleEngine plainWorld ''6.6.0''
   \<and> \<not> isWpVersion exampleEngine fieldsWorld' ''6.6.0''
   \<and> versionLess [6, 5, 2] [6, 6, 0]"
proof -
  have engine: "Number exampleEngine = decimalNumber"
    by (simp add: exampleEngine_def)
  have first: "\<not> isWpVersion exampleEngine fieldsWorld' ''6.6.0''"
      "getNumberToBase10 exampleEngine (map decimalNumber (splitDot ''6.6.0'')) = Finite 660"
    using isWpVersion_base10 [of exampleEngine fieldsWorld' "[6, 5, 2]" "''6.6.0''" "[6, 6, 0]"
        "[5, 6, 1]"] exampleEngine_pow [of 3]
    by (simp_all add: engine fieldsWorld'_def decimalNumber_examples positional_Cons
        positional_Nil)
  have second: "\<not> isWpVersion exampleEngine plainWorld ''6.6.0''"
      "getNumberToBase10 exampleEngine (map decimalNumber (splitDot ''6.6'')) = Finite 66"
    using isWpVersion_base10 [of exampleEngine plainWorld "[6, 6]" "''6.6.0''" "[6, 6, 0]"
        "[5, 6, 1]"] exampleEngine_pow [of 3]
    by (simp_all add: engine plainWorld_def decimalNumber_examples positional_Cons
        positional_Nil)
  have third: "getNumberToBase10 exampleEngine (map decimalNumber (splitDot ''5.6.1''))
      = Finite 561"
    using isWpVersion_base10 [of exampleEngine "plainWorld\<lparr>wpVersion := ''5.6.1''\<rparr>" "[5, 6, 1]"
        "''6.6.0''" "[6, 6, 0]" "[5, 6, 1]"] exampleEngine_pow [of 3]
    by (simp add: engine decimalNumber_examples positional_Cons positional_Nil)
  from first second third show ?thesis
    by simp
qed


subsection \<open>Polling for the editor root\<close>

lemma onInterval_found:
  "onInterval (Some e) (waiting j) = stopped (Suc j) (Resolved e)"
  by (simp add: onInterval_def waiting_def stopped_def resolve_def reject_def clearInterval_def
      Let_def)

lemma onInterval_waiting:
  "j < 600 \<Longrightarrow> onInterval None (waiting j) = waiting (Suc j)"
  by (simp add: onInterval_def waiting_def Let_def interval_def)

lemma onInterval_timeout:
  "onInterval None (waiting 600) =
     stopped 601 (Rejected ''Unable to get Editor root container...'')"
  by (simp add: onInterval_def waiting_def stopped_def reject_def clearInterval_def Let_def
      interval_def)

lemma runInterval_stopped: "runInterval queries k (stopped j p) = stopped j p"
  by (subst runInterval.simps) (simp add: stopped_def)

lemma runInterval_waiting:
  "runInterval queries k (waiting j) = runInterval queries (Suc k) (onInterval (queries k) (waiting j))"
  by (subst runInterval.simps) (simp add: waiting_def)

lemma runInterval_resolves:
  "j + d \<le> 600 \<Longrightarrow> \<forall>i<d. queries (k + i) = None \<Longrightarrow> queries (k + d) = Some e \<Longrightarrow>
     runInterval queries k (waiting j) = stopped (Suc (j + d)) (Resolved e)"
proof (induction d arbitrary: j k)
  case 0
  then show ?case
    by (simp add: runInterval_waiting onInterval_found runInterval_stopped)
next
  case (Suc d)
  from Suc.prems(2) [rule_format, of 0] have none: "queries k = None"
    by simp
  from Suc.prems have "j < 600" by simp
  with none have "runInterval queries k (waiting j) = runInterval queries (Suc k) (waiting (Suc j))"
    by (simp add: runInterval_waiting onInterval_waiting)
  also have "\<dots> = stopped (Suc (Suc j + d)) (Resolved e)"
  proof (rule Suc.IH)
    show "Suc j + d \<le> 600" using Suc.prems by simp
    show "\<forall>i<d. queries (Suc k + i) = None"
    proof (intro allI impI)
      fix i assume "i < d"
      with Suc.prems(2) [rule_format, of "Suc i"] show "queries (Suc k + i) = None"
        by simp
    qed
    show "queries (Suc k + d) = Some e"
      using Suc.prems(3) by simp
  qed
  finally show ?case by simp
qed

lemma runInterval_rejects:
  "j + n = 600 \<Longrightarrow> \<forall>i\<le>n. queries (k + i) = None \<Longrightarrow>
     runInterval queries k (waiting j) =
       stopped 601 (Rejected ''Unable to get Editor root container...'')"
proof (induction n arbitrary: j k)
  case 0
  then show ?case
    by (simp add: runInterval_waiting onInterval_timeout runInterval_stopped)
next
  case (Suc n)
  from Suc.prems(2) [rule_format, of 0] have none: "queries k = None"
    by simp
  from Suc.prems have "j < 600" by simp
  with none have "runInterval queries k (waiting j) = runInterval queries (Suc k) (waiting (Suc j))"
    by (simp add: runInterval_waiting onInterval_waiting)
  also have "\<dots> = stopped 601 (Rejected ''Unable to get Editor root container...'')"
  proof (rule Suc.IH)
    show "Suc j + n = 600" using Suc.prems by simp
    show "\<forall>i\<le>n. queries (Suc k + i) = None"
    proof (intro allI impI)
      fix i assume "i \<le> n"
      with Suc.prems(2) [rule_format, of "Suc i"] show "queries (Suc k + i) = None"
        by simp
    qed
  qed
  finally show ?case .
qed



text \<open>What the timer does from the start, by what the queries answer.\<close>

lemma runInterval_outcome:
  fixes queries :: "nat \<Rightarrow> htmlElement option"
  defines "st \<equiv> runInterval queries 0 (waiting 0)"
  shows "\<not> intervalSet st \<and> promiseState st \<noteq> Pending \<and> elapsedTime st \<le> 601 * interval
      \<and> ((\<forall>k\<le>600. queries k = None) \<longrightarrow>
            promiseState st = Rejected ''Unable to get Editor root container...''
            \<and> elapsedTime st = 601 * interval)
      \<and> (\<forall>m e. m \<le> 600 \<and> queries m = Some e \<and> (\<forall>k<m. queries k = None) \<longrightarrow>
            promiseState st = Resolved e \<and> elapsedTime st = Suc m * interval)"
proof (cases "\<exists>m\<le>600. queries m \<noteq> None")
  case True
  from True obtain m' where m': "m' \<le> 600" "queries m' \<noteq> None"
    by blast
  from m'(2) have "\<exists>n. queries n \<noteq> None \<and> (\<forall>k<n. \<not> queries k \<noteq> None)"
    using exists_least_iff [of "\<lambda>n. queries n \<noteq> None"] by blast
  then obtain m where found: "queries m \<noteq> None" and least: "\<forall>k<m. queries k = None"
    by auto
  have "m \<le> m'"
  proof (rule ccontr)
    assume "\<not> m \<le> m'"
    then have "m' < m" by linarith
    with least have "queries m' = None" by (rule_tac allE) auto
    with m'(2) show False by contradiction
  qed
  with m'(1) have bound: "m \<le> 600"
    by linarith
  from found obtain e where e: "queries m = Some e"
    by auto
  have "runInterval queries 0 (waiting 0) = stopped (Suc (0 + m)) (Resolved e)"
    using bound least e by (intro runInterval_resolves) simp_all
  then have st: "st = stopped (Suc m) (Resolved e)"
    by (simp add: st_def)
  have unique: "m2 = m \<and> e2 = e"
    if "queries m2 = Some e2" "\<forall>k<m2. queries k = None" for m2 e2
  proof -
    have "\<not> m2 < m"
      using least that(1) by auto
    moreover have "\<not> m < m2"
      using that(2) found by auto
    ultimately have "m2 = m" by linarith
    with that e show ?thesis by simp
  qed
  have within: "Suc m * interval \<le> 601 * interval"
    using bound by (simp add: interval_def)
  show ?thesis
    unfolding st
  proof (intro conjI impI allI)
    show "\<not> intervalSet (stopped (Suc m) (Resolved e))"
      by (simp add: stopped_def)
    show "promiseState (stopped (Suc m) (Resolved e)) \<noteq> Pending"
      by (simp add: stopped_def)
    show "elapsedTime (stopped (Suc m) (Resolved e)) \<le> 601 * interval"
      using within by (simp add: stopped_def)
  next
    assume "\<forall>k\<le>600. queries k = None"
    with bound have "queries m = None"
      by simp
    with found show "promiseState (stopped (Suc m) (Resolved e))
        = Rejected ''Unable to get Editor root container...''"
      by contradiction
  next
    assume "\<forall>k\<le>600. queries k = None"
    with bound have "queries m = None"
      by simp
    with found show "elapsedTime (stopped (Suc m) (Resolved e)) = 601 * interval"
      by contradiction
  next
    fix m2 e2
    assume "m2 \<le> 600 \<and> queries m2 = Some e2 \<and> (\<forall>k<m2. queries k = None)"
    then have "m2 = m \<and> e2 = e"
      by (intro unique) simp_all
    then show "promiseState (stopped (Suc m) (Resolved e)) = Resolved e2"
      by (simp add: stopped_def)
  next
    fix m2 e2
    assume "m2 \<le> 600 \<and> queries m2 = Some e2 \<and> (\<forall>k<m2. queries k = None)"
    then have "m2 = m \<and> e2 = e"
      by (intro unique) simp_all
    then show "elapsedTime (stopped (Suc m) (Resolved e)) = Suc m2 * interval"
      by (simp add: stopped_def)
  qed
next
  case False
  then have none: "\<forall>i\<le>600. queries (0 + i) = None"
    by simp
  have "runInterval queries 0 (waiting 0) =
      stopped 601 (Rejected ''Unable to get Editor root container...'')"
    using none by (intro runInterval_rejects [of 0 600]) simp_all
  then have st: "st = stopped 601 (Rejected ''Unable to get Editor root container...'')"
    by (simp add: st_def)
  show ?thesis
    unfolding st
  proof (intro conjI impI allI)
    show "\<not> intervalSet (stopped 601 (Rejected ''Unable to get Editor root container...''))"
      by (simp add: stopped_def)
    show "promiseState (stopped 601 (Rejected ''Unable to get Editor root container...''))
        \<noteq> Pending"
      by (simp add: stopped_def)
    show "elapsedTime (stopped 601 (Rejected ''Unable to get Editor root container...''))
        \<le> 601 * interval"
      by (simp add: stopped_def)
    show "promiseState (stopped 601 (Rejected ''Unable to get Editor root container...''))
        = Rejected ''Unable to get Editor root container...''"
      by (simp add: stopped_def)
    show "elapsedTime (stopped 601 (Rejected ''Unable to get Editor root container...''))
        = 601 * interval"
      by (simp add: stopped_def)
  next
    fix m2 e2
    assume "m2 \<le> 600 \<and> queries m2 = Some e2 \<and> (\<forall>k<m2. queries k = None)"
    with False have impossible: False
      by auto
    then show "promiseState (stopped 601 (Rejected ''Unable to get Editor root container...''))
        = Resolved e2"
      by (rule FalseE)
    from impossible
    show "elapsedTime (stopped 601 (Rejected ''Unable to get Editor root container...''))
        = Suc m2 * interval"
      by (rule FalseE)
  qed
qed

text \<open>
  Claim C4. \<open>getEditorRoot\<close> polls at the fixed interval of 100 and stops: whatever
  the version and whatever the document answers, the timer ends with the interval
  cleared and the promise settled, after at most 601 runs of the callback. When no run
  finds the element, the promise is rejected with the error at the run where the
  elapsed time, 601 intervals, first exceeds 600 intervals. When the element is first
  found at a run, the promise is resolved with that element at that run (run \<open>m\<close>,
  counted from 0, is at \<open>Suc m\<close> intervals).
\<close>

theorem getEditorRoot_bounded:
  "let selector = (if isWpVersion js w ''6.6.0'' then ''.editor-header__toolbar''
                   else ''.edit-post-header__toolbar'');
       st = getEditorRoot js w document
   in interval = 100
      \<and> \<not> intervalSet st \<and> promiseState st \<noteq> Pending \<and> elapsedTime st \<le> 601 * interval
      \<and> ((\<forall>k\<le>600. document k selector = None) \<longrightarrow>
            promiseState st = Rejected ''Unable to get Editor root container...''
            \<and> elapsedTime st = 601 * interval)
      \<and> (\<forall>m e. m \<le> 600 \<and> document m selector = Some e
                  \<and> (\<forall>k<m. document k selector = None) \<longrightarrow>
            promiseState st = Resolved e \<and> elapsedTime st = Suc m * interval)"
proof -
  define selector where "selector = (if isWpVersion js w ''6.6.0'' then ''.editor-header__toolbar''
                   else ''.edit-post-header__toolbar'')"
  have run: "getEditorRoot js w document = runInterval (\<lambda>k. document k selector) 0 (waiting 0)"
    by (simp add: getEditorRoot_def selector_def waiting_def Let_def)
  from runInterval_outcome [of "\<lambda>k. document k selector"] show ?thesis
    unfolding Let_def selector_def [symmetric] run by (simp add: interval_def)
qed

theorem getEditorRoot_bounded_witness:
  "(let st = getEditorRoot exampleEngine plainWorld (\<lambda>k selector. None)
    in \<not> intervalSet st
       \<and> promiseState st = Rejected ''Unable to get Editor root container...''
       \<and> elapsedTime st = 60100)
   \<and> (let st = getEditorRoot exampleEngine plainWorld
          (\<lambda>k selector. if 2 \<le> k \<and> selector = ''.edit-post-header__toolbar''
                         then Some (HTMLElement ''toolbar'') else None)
       in \<not> intervalSet st
          \<and> promiseState st = Resolved (HTMLElement ''toolbar'')
          \<and> elapsedTime st = 300)
   \<and> (let st = getEditorRoot exampleEngine candidateWorld
          (\<lambda>k selector. if selector = ''.editor-header__toolbar''
                         then Some (HTMLElement ''header'') else None)
       in \<not> intervalSet st
          \<and> promiseState st = Resolved (HTMLElement ''header'')
          \<and> elapsedTime st = 100)"
proof -
  have never: "let st = getEditorRoot exampleEngine plainWorld (\<lambda>k selector. None)
    in \<not> intervalSet st
       \<and> promiseState st = Rejected ''Unable to get Editor root container...''
       \<and> elapsedTime st = 60100"
    using getEditorRoot_bounded [of exampleEngine plainWorld "\<lambda>k selector. None"]
    by (simp add: Let_def)
  define later where "later = (\<lambda>(k::nat) selector. if 2 \<le> k \<and> selector = ''.edit-post-header__toolbar''
                         then Some (HTMLElement ''toolbar'') else None)"
  have "\<forall>m e. m \<le> 600 \<and> later m ''.edit-post-header__toolbar'' = Some e
        \<and> (\<forall>k<m. later k ''.edit-post-header__toolbar'' = None) \<longrightarrow>
        promiseState (getEditorRoot exampleEngine plainWorld later) = Resolved e
        \<and> elapsedTime (getEditorRoot exampleEngine plainWorld later) = Suc m * interval"
    and stops: "\<not> intervalSet (getEditorRoot exampleEngine plainWorld later)"
    using getEditorRoot_bounded [of exampleEngine plainWorld later] isWpVersion_plainWorld
    by (simp_all add: Let_def)
  from this(1) [rule_format, of 2 "HTMLElement ''toolbar''"]
  have found: "promiseState (getEditorRoot exampleEngine plainWorld later)
        = Resolved (HTMLElement ''toolbar'')"
      "elapsedTime (getEditorRoot exampleEngine plainWorld later) = 300"
    by (simp_all add: later_def interval_def)
  define header where "header = (\<lambda>(k::nat) selector. if selector = ''.editor-header__toolbar''
                         then Some (HTMLElement ''header'') else None)"
  have "\<forall>m e. m \<le> 600 \<and> header m ''.editor-header__toolbar'' = Some e
        \<and> (\<forall>k<m. header k ''.editor-header__toolbar'' = None) \<longrightarrow>
        promiseState (getEditorRoot exampleEngine candidateWorld header) = Resolved e
        \<and> elapsedTime (getEditorRoot exampleEngine candidateWorld header) = Suc m * interval"
    and stops': "\<not> intervalSet (getEditorRoot exampleEngine candidateWorld header)"
    using getEditorRoot_bounded [of exampleEngine candidateWorld header] isWpVersion_candidateWorld
    by (simp_all add: Let_def)
  from this(1) [rule_format, of 0 "HTMLElement ''header''"]
  have found': "promiseState (getEditorRoot exampleEngine candidateWorld header)
        = Resolved (HTMLElement ''header'')"
      "elapsedTime (getEditorRoot exampleEngine candidateWorld header) = 100"
    by (simp_all add: header_def interval_def)
  from never stops found stops' found' show ?thesis
    unfolding later_def header_def Let_def by simp
qed

subsection \<open>Malformed rules\<close>




subsection \<open>The toolbar icon\<close>

lemma indexOf_range: "indexOf xs v = - 1 \<or> 0 \<le> indexOf xs v"
  by (induction xs) (auto simp: Let_def)

lemma indexOf_absent: "indexOf xs v = - 1 \<longleftrightarrow> (\<forall>x \<in> set xs. \<not> strictEq x v)"
proof (induction xs)
  case Nil
  then show ?case by simp
next
  case (Cons x xs)
  have "indexOf xs v + 1 \<noteq> - 1"
    using indexOf_range [of xs v] by linarith
  with Cons show ?case
    by (simp add: Let_def)
qed

lemma indexOf_string: "indexOf xs (JStr s) = - 1 \<longleftrightarrow> JStr s \<notin> set xs"
  by (auto simp: indexOf_absent strictEq_def)

lemma getAllowedBlocks_plainWorld:
  "getAllowedBlocks plainWorld =
     Inr [JStr ''core/paragraph'', JStr ''core/heading'', JUndefined, JUndefined]"
  by (simp add: getAllowedBlocks_def getAllowedBlocksAndFields_def getTextBlocks_def
      getBlockTypes_def applyFilters_def plainWorld_def coreRegistry_def optChain_def
      strictEq_def fieldBlockName_def)

text \<open>
  Claim C9. \<open>SearchReplaceToolbarIcon\<close> changes the \<open>edit\<close> property of eligible
  blocks and nothing else. When \<open>getAllowedBlocks\<close> returns a list and the name of the
  settings is not found in it, the settings are returned as they are; when it is found,
  the result is the settings with \<open>edit\<close> set to the toolbar component, every other
  property being as before. For a name that is a string, not found means not a member
  of the list.
\<close>

theorem SearchReplaceToolbarIcon_frame:
  assumes "getAllowedBlocks w = Inr allowed"
  shows "(indexOfField allowed (settings ''name'') = - 1 \<longrightarrow>
            SearchReplaceToolbarIcon w settings = Inr settings)
    \<and> (indexOfField allowed (settings ''name'') \<noteq> - 1 \<longrightarrow>
          (\<exists>settings'. SearchReplaceToolbarIcon w settings = Inr settings'
             \<and> settings' ''edit'' = Some (Component (toolbarEdit (settings ''edit'')))
             \<and> (\<forall>k. k \<noteq> ''edit'' \<longrightarrow> settings' k = settings k)))
    \<and> (settings ''name'' = Some (Value (JStr s)) \<longrightarrow>
          (indexOfField allowed (settings ''name'') = - 1 \<longleftrightarrow> JStr s \<notin> set allowed))"
proof (intro conjI impI)
  assume "indexOfField allowed (settings ''name'') = - 1"
  with assms show "SearchReplaceToolbarIcon w settings = Inr settings"
    by (simp add: SearchReplaceToolbarIcon_def)
next
  assume "indexOfField allowed (settings ''name'') \<noteq> - 1"
  with assms have "SearchReplaceToolbarIcon w settings =
      Inr (settings(''edit'' \<mapsto> Component (toolbarEdit (settings ''edit''))))"
    by (simp add: SearchReplaceToolbarIcon_def)
  then show "\<exists>settings'. SearchReplaceToolbarIcon w settings = Inr settings'
             \<and> settings' ''edit'' = Some (Component (toolbarEdit (settings ''edit'')))
             \<and> (\<forall>k. k \<noteq> ''edit'' \<longrightarrow> settings' k = settings k)"
    by simp
next
  assume "settings ''name'' = Some (Value (JStr s))"
  then show "indexOfField allowed (settings ''name'') = - 1 \<longleftrightarrow> JStr s \<notin> set allowed"
    by (simp add: indexOf_string)
qed

theorem SearchReplaceToolbarIcon_frame_witness:
  "SearchReplaceToolbarIcon plainWorld imageSettings = Inr imageSettings
   \<and> (\<exists>settings'. SearchReplaceToolbarIcon plainWorld paragraphSettings = Inr settings'
         \<and> settings' ''edit'' = Some (Component (toolbarEdit (Some (Component originalEdit))))
         \<and> settings' ''name'' = Some (Value (JStr ''core/paragraph''))
         \<and> settings' ''title'' = Some (Value (JStr ''Paragraph'')))"
proof -
  have image: "imageSettings ''name'' = Some (Value (JStr ''core/image''))"
    by (simp add: imageSettings_def)
  have par: "paragraphSettings ''name'' = Some (Value (JStr ''core/paragraph''))"
    "paragraphSettings ''title'' = Some (Value (JStr ''Paragraph''))"
    "paragraphSettings ''edit'' = Some (Component originalEdit)"
    by (simp_all add: paragraphSettings_def)
  from SearchReplaceToolbarIcon_frame [OF getAllowedBlocks_plainWorld, of imageSettings "''core/image''"]
  have unchanged: "SearchReplaceToolbarIcon plainWorld imageSettings = Inr imageSettings"
    using image by simp
  from SearchReplaceToolbarIcon_frame [OF getAllowedBlocks_plainWorld, of paragraphSettings
      "''core/paragraph''"]
  have "\<exists>settings'. SearchReplaceToolbarIcon plainWorld paragraphSettings = Inr settings'
             \<and> settings' ''edit'' = Some (Component (toolbarEdit (paragraphSettings ''edit'')))
             \<and> (\<forall>k. k \<noteq> ''edit'' \<longrightarrow> settings' k = paragraphSettings k)"
    using par(1) by simp
  then obtain settings' where s':
    "SearchReplaceToolbarIcon plainWorld paragraphSettings = Inr settings'"
    "settings' ''edit'' = Some (Component (toolbarEdit (paragraphSettings ''edit'')))"
    "\<forall>k. k \<noteq> ''edit'' \<longrightarrow> settings' k = paragraphSettings k"
    by blast
  from s'(3) [rule_format, of "''name''"] s'(3) [rule_format, of "''title''"]
  have "settings' ''name'' = Some (Value (JStr ''core/paragraph''))"
    "settings' ''title'' = Some (Value (JStr ''Paragraph''))"
    using par by simp_all
  with s'(1,2) par(3) unchanged show ?thesis
    by simp
qed

subsection \<open>The match locator\<close>

lemma scanFrom_matches:
  "\<forall>m \<in> set (scanFrom t q start).
     start \<le> fst m \<and> snd m = length q \<and> fst m + snd m \<le> length t
     \<and> take (snd m) (drop (fst m) t) = q"
proof (induction t q start rule: scanFrom.induct)
  case (1 t q start)
  show ?case
  proof (cases "q = []")
    case True
    then show ?thesis by (subst scanFrom.simps) simp
  next
    case False
    show ?thesis
    proof (cases "locate (drop start t) q")
      case None
      with False show ?thesis by (subst scanFrom.simps) simp
    next
      case (Some i)
      from locate_Some [OF Some] have fits: "i + length q \<le> length t - start"
        and equal: "take (length q) (drop (start + i) t) = q"
        by (simp_all add: add.commute)
      from False have "0 < length q"
        by simp
      with fits have here: "start + i + length q \<le> length t"
        by linarith
      from "1.IH" [OF False Some]
      have rest: "\<forall>m \<in> set (scanFrom t q (start + i + length q)).
         start + i + length q \<le> fst m \<and> snd m = length q \<and> fst m + snd m \<le> length t
         \<and> take (snd m) (drop (fst m) t) = q" .
      have "scanFrom t q start = (start + i, length q) # scanFrom t q (start + i + length q)"
        using False Some by (subst scanFrom.simps) simp
      with here equal rest show ?thesis
        by auto
    qed
  qed
qed

lemma scanFrom_sorted:
  "sorted_wrt (\<lambda>a b. fst a + snd a \<le> fst b) (scanFrom t q start)"
proof (induction t q start rule: scanFrom.induct)
  case (1 t q start)
  show ?case
  proof (cases "q = []")
    case True
    then show ?thesis by (subst scanFrom.simps) simp
  next
    case False
    show ?thesis
    proof (cases "locate (drop start t) q")
      case None
      with False show ?thesis by (subst scanFrom.simps) simp
    next
      case (Some i)
      have unfold: "scanFrom t q start = (start + i, length q) # scanFrom t q (start + i + length q)"
        using False Some by (subst scanFrom.simps) simp
      have "\<forall>m \<in> set (scanFrom t q (start + i + length q)). start + i + length q \<le> fst m"
        using scanFrom_matches [of t q "start + i + length q"] by blast
      with "1.IH" [OF False Some] show ?thesis
        by (simp add: unfold)
    qed
  qed
qed

text \<open>
  Claim C7. For a text \<open>T\<close> and a query \<open>Q\<close> that is not empty, the matches of
  \<open>findAll T Q True\<close> do not overlap and come in order (each match ends at or before
  the offset of every later one), their offsets are strictly ascending, and each match
  is a pair of an offset and the length of \<open>Q\<close>, within \<open>T\<close>, at which \<open>T\<close>
  reads \<open>Q\<close>.
\<close>

theorem findAll_matches:
  assumes "Q \<noteq> []"
  shows "sorted_wrt (\<lambda>a b. fst a + snd a \<le> fst b) (findAll T Q True)
    \<and> sorted_wrt (\<lambda>a b. fst a < fst b) (findAll T Q True)
    \<and> (\<forall>m \<in> set (findAll T Q True).
          snd m = length Q \<and> fst m + snd m \<le> length T \<and> take (snd m) (drop (fst m) T) = Q)"
proof -
  have eq: "findAll T Q True = scanFrom T Q 0"
    using assms by (simp add: findAll_def)
  have apart: "sorted_wrt (\<lambda>a b. fst a + snd a \<le> fst b) (scanFrom T Q 0)"
    by (rule scanFrom_sorted)
  have each: "\<forall>m \<in> set (scanFrom T Q 0).
      snd m = length Q \<and> fst m + snd m \<le> length T \<and> take (snd m) (drop (fst m) T) = Q"
    using scanFrom_matches [of T Q 0] by blast
  have "sorted_wrt (\<lambda>a b. fst a < fst b) (scanFrom T Q 0)"
  proof (rule sorted_wrt_mono_rel [OF _ apart])
    fix a b
    assume "a \<in> set (scanFrom T Q 0)" and "fst a + snd a \<le> fst b"
    moreover from this each assms have "0 < snd a" by simp
    ultimately show "fst a < fst b" by linarith
  qed
  with apart each show ?thesis
    unfolding eq by blast
qed

theorem findAll_matches_witness:
  "findAll ''the cat sat on cat'' ''cat'' True = [(4, 3), (15, 3)]
   \<and> take 3 (drop 4 ''the cat sat on cat'') = ''cat''
   \<and> take 3 (drop 15 ''the cat sat on cat'') = ''cat''"
proof -
  have run: "findAll ''the cat sat on cat'' ''cat'' True = [(4, 3), (15, 3)]"
    by (simp add: findAll_def scanFrom.simps)
  have "''cat'' \<noteq> []"
    by simp
  from findAll_matches [OF this, of "''the cat sat on cat''"] show ?thesis
    unfolding run by simp
qed

text \<open>
  Claim C8. For every text and either value of the case-sensitivity flag, the empty
  query has no match.
\<close>

theorem findAll_empty_query: "findAll T [] caseSensitive = []"
  by (simp add: findAll_def)

subsection \<open>Arrays in the heap\<close>

lemma extends_refl: "wellFormed h \<Longrightarrow> extends h h"
  by (simp add: extends_def unchanged_def)

lemma extends_trans: "extends h h' \<Longrightarrow> extends h' h'' \<Longrightarrow> extends h h''"
  by (auto simp: extends_def unchanged_def)

lemma allocate_extends:
  assumes "wellFormed h" and "allocate xs h = (r, h')"
  shows "extends h h' \<and> r = nextRef h \<and> nextRef h' = Suc r \<and> contents h' r = xs"
  using assms by (auto simp: allocate_def extends_def unchanged_def wellFormed_def contents_def)

lemma extends_contents: "extends h h' \<Longrightarrow> r < nextRef h \<Longrightarrow> contents h' r = contents h r"
  by (simp add: extends_def unchanged_def contents_def)

lemma extends_view: "wellFormed h \<Longrightarrow> extends h h' \<Longrightarrow> view h' = view h"
  by (simp add: view_def extends_def unchanged_def contents_def wellFormed_def)


lemma getTextBlocks_heap_result:
  assumes wf: "wellFormed h" and run: "getTextBlocks_heap h = (r, h')"
  shows "extends h h' \<and> nextRef h \<le> r \<and> r < nextRef h' \<and> contents h' r = getTextBlocks (view h)"
proof -
  let ?P = "\<lambda>block. strictEq (optChain block ''category'') (JStr ''text'')"
  let ?N = "\<lambda>block. optChain block ''name''"
  obtain f h1 where a1: "allocate (filter ?P (contents h (registry h))) h = (f, h1)"
    by (cases "allocate (filter ?P (contents h (registry h))) h")
  obtain n h2 where a2: "allocate (map ?N (contents h1 f)) h1 = (n, h2)"
    by (cases "allocate (map ?N (contents h1 f)) h1")
  from run a1 a2 have res: "r = n" "h' = h2"
    by (simp_all add: getTextBlocks_heap_def Let_def)
  note s1 = allocate_extends [OF wf a1]
  from s1 have ext1: "extends h h1" and f: "f = nextRef h" and next1: "nextRef h1 = Suc f"
    and c1: "contents h1 f = filter ?P (contents h (registry h))"
    by blast+
  from ext1 have wf1: "wellFormed h1" by (simp add: extends_def)
  note s2 = allocate_extends [OF wf1 a2]
  from s2 have ext2: "extends h1 h2" and n: "n = nextRef h1" and next2: "nextRef h2 = Suc n"
    and c2: "contents h2 n = map ?N (contents h1 f)"
    by blast+
  from ext1 ext2 have "extends h h2" by (rule extends_trans)
  moreover have "contents h2 n = getTextBlocks (view h)"
    unfolding c2 c1 by (simp add: getTextBlocks_def getBlockTypes_def view_def)
  moreover have "nextRef h \<le> n" "n < nextRef h2"
    using f next1 n next2 by simp_all
  ultimately show ?thesis
    unfolding res by simp
qed

text \<open>One call in the heap: what it leaves and what it returns.\<close>

lemma getAllowedBlocks_heap_result:
  assumes wf: "wellFormed h" and run: "getAllowedBlocks_heap h = (res, h')"
  shows "extends h h'
    \<and> (case res of
          Inl e \<Rightarrow> getAllowedBlocks (view h) = Inl e
        | Inr r \<Rightarrow> nextRef h \<le> r \<and> r < nextRef h'
                   \<and> getAllowedBlocks (view h) = Inr (contents h' r))"
proof -
  obtain t1 h1 where g1: "getTextBlocks_heap h = (t1, h1)"
    by (cases "getTextBlocks_heap h")
  obtain t2 h2 where g2: "getTextBlocks_heap h1 = (t2, h2)"
    by (cases "getTextBlocks_heap h1")
  note r1 = getTextBlocks_heap_result [OF wf g1]
  from r1 have ext1: "extends h h1" and c1: "contents h1 t1 = getTextBlocks (view h)"
    by blast+
  from ext1 have wf1: "wellFormed h1" by (simp add: extends_def)
  from wf ext1 have v1: "view h1 = view h" by (rule extends_view)
  note r2 = getTextBlocks_heap_result [OF wf1 g2]
  from r2 have ext2: "extends h1 h2" and c2: "contents h2 t2 = getTextBlocks (view h)"
    by (simp_all add: v1)
  from ext2 have wf2: "wellFormed h2" by (simp add: extends_def)
  from wf1 ext2 have v2: "view h2 = view h" by (simp add: extends_view v1)
  from ext1 ext2 have ext02: "extends h h2" by (rule extends_trans)
  define blocks where "blocks = applyFilters (view h) allowedBlocksHook (JArr (getTextBlocks (view h)))"
  define fields where "fields = getAllowedBlocksAndFields (view h)"
  have unfold: "getAllowedBlocks_heap h =
      (case arrayMap fieldBlockName fields of
           Inl e \<Rightarrow> (Inl e, h2)
         | Inr fieldBlocks \<Rightarrow>
             (let (fb, h3) = allocate fieldBlocks h2
              in case spread blocks of
                   Inl e \<Rightarrow> (Inl e, h3)
                 | Inr bs \<Rightarrow>
                     (let (result, h4) = allocate (bs @ contents h3 fb) h3
                      in (Inr result, h4))))"
    unfolding getAllowedBlocks_heap_def Let_def g1 g2 prod.case c1 c2 v1 v2 blocks_def fields_def
      getAllowedBlocksAndFields_def ..
  have pure: "getAllowedBlocks (view h) =
      (case arrayMap fieldBlockName fields of
           Inl e \<Rightarrow> Inl e
         | Inr fieldBlocks \<Rightarrow>
             (case spread blocks of Inl e \<Rightarrow> Inl e | Inr bs \<Rightarrow> Inr (bs @ fieldBlocks)))"
    unfolding getAllowedBlocks_def Let_def blocks_def fields_def ..
  show ?thesis
  proof (cases "arrayMap fieldBlockName fields")
    case (Inl e)
    with run unfold have "res = Inl e" "h' = h2" by simp_all
    with ext02 pure Inl show ?thesis by simp
  next
    case (Inr fieldBlocks)
    obtain fb h3 where a3: "allocate fieldBlocks h2 = (fb, h3)"
      by (cases "allocate fieldBlocks h2")
    note s3 = allocate_extends [OF wf2 a3]
    from s3 have ext3: "extends h2 h3" and c3: "contents h3 fb = fieldBlocks"
      by blast+
    from ext3 have wf3: "wellFormed h3" by (simp add: extends_def)
    from ext02 ext3 have ext03: "extends h h3" by (rule extends_trans)
    show ?thesis
    proof (cases "spread blocks")
      case (Inl e)
      with run unfold Inr a3 have "res = Inl e" "h' = h3" by simp_all
      with ext03 pure Inr Inl show ?thesis by simp
    next
      case bs: (Inr bs)
      obtain result h4 where a4: "allocate (bs @ fieldBlocks) h3 = (result, h4)"
        by (cases "allocate (bs @ fieldBlocks) h3")
      note s4 = allocate_extends [OF wf3 a4]
      from s4 have ext4: "extends h3 h4" and r4: "result = nextRef h3"
        and next4: "nextRef h4 = Suc result" and c4: "contents h4 result = bs @ fieldBlocks"
        by blast+
      from ext03 ext4 have ext04: "extends h h4" by (rule extends_trans)
      from ext03 have "nextRef h \<le> nextRef h3" by (simp add: extends_def)
      with r4 next4 have range: "nextRef h \<le> result" "result < nextRef h4" by simp_all
      from run unfold Inr a3 bs a4 c3 have "res = Inr result" "h' = h4" by simp_all
      with ext04 pure Inr bs c4 range show ?thesis by simp
    qed
  qed
qed


lemma extends_unchanged: "extends h h' \<Longrightarrow> unchanged h h'"
  by (simp add: extends_def)

text \<open>
  Claim C6. The eligibility computation reads the registry and the providers and
  writes to nothing that exists. In a heap where the arrays of the host live, a call
  of \<open>getAllowedBlocks\<close> or of \<open>getTextBlocks\<close> makes new arrays only: every array
  that was there before the call, the registry among them, and the providers are the
  same after it, and after a second call. The second call returns what the first
  returned: the same failure, or another array that holds the same entries, the first
  one being still as it was returned; these entries are a function of the registry
  and of the providers of the two hooks alone, so that a host with the same registry
  entries and the same providers gets the same lists.
\<close>

theorem getAllowedBlocks_pure:
  assumes "wellFormed h"
    and "getAllowedBlocks_heap h = (r1, h1)" and "getAllowedBlocks_heap h1 = (r2, h2)"
    and "getTextBlocks_heap h = (t1, g1)" and "getTextBlocks_heap g1 = (t2, g2)"
  shows "unchanged h h1 \<and> unchanged h h2 \<and> unchanged h g1 \<and> unchanged h g2
    \<and> (case r1 of
          Inl e \<Rightarrow> r2 = Inl e
        | Inr a1 \<Rightarrow> (\<exists>a2. r2 = Inr a2 \<and> a2 \<noteq> a1
                      \<and> contents h2 a2 = contents h1 a1 \<and> contents h2 a1 = contents h1 a1
                      \<and> getAllowedBlocks (view h) = Inr (contents h1 a1)))
    \<and> t2 \<noteq> t1 \<and> contents g2 t2 = contents g1 t1 \<and> contents g2 t1 = contents g1 t1
    \<and> contents g1 t1 = getTextBlocks (view h)
    \<and> (contents k (registry k) = contents h (registry h)
        \<and> hooks k allowedBlocksHook = hooks h allowedBlocksHook
        \<and> hooks k allowedBlocksAndFieldsHook = hooks h allowedBlocksAndFieldsHook \<longrightarrow>
          getTextBlocks (view k) = getTextBlocks (view h)
          \<and> getAllowedBlocks (view k) = getAllowedBlocks (view h))"
proof -
  note first = getAllowedBlocks_heap_result [OF assms(1,2)]
  from first have e1: "extends h h1" by blast
  then have wf1: "wellFormed h1" by (simp add: extends_def)
  from assms(1) e1 have v1: "view h1 = view h" by (rule extends_view)
  note second = getAllowedBlocks_heap_result [OF wf1 assms(3)]
  from second have e2: "extends h1 h2" by blast
  from e1 e2 have e02: "extends h h2" by (rule extends_trans)
  note tfirst = getTextBlocks_heap_result [OF assms(1,4)]
  from tfirst have f1: "extends h g1" and tr1: "nextRef h \<le> t1" "t1 < nextRef g1"
    and tc1: "contents g1 t1 = getTextBlocks (view h)"
    by blast+
  from f1 have wg1: "wellFormed g1" by (simp add: extends_def)
  from assms(1) f1 have vg1: "view g1 = view h" by (rule extends_view)
  note tsecond = getTextBlocks_heap_result [OF wg1 assms(5)]
  from tsecond have f2: "extends g1 g2" and tr2: "nextRef g1 \<le> t2"
    and tc2: "contents g2 t2 = getTextBlocks (view h)"
    by (simp_all add: vg1)
  from f1 f2 have f02: "extends h g2" by (rule extends_trans)
  have frames: "unchanged h h1 \<and> unchanged h h2 \<and> unchanged h g1 \<and> unchanged h g2"
    using e1 e02 f1 f02 by (simp add: extends_unchanged)
  have results: "case r1 of
          Inl e \<Rightarrow> r2 = Inl e
        | Inr a1 \<Rightarrow> (\<exists>a2. r2 = Inr a2 \<and> a2 \<noteq> a1
                      \<and> contents h2 a2 = contents h1 a1 \<and> contents h2 a1 = contents h1 a1
                      \<and> getAllowedBlocks (view h) = Inr (contents h1 a1))"
  proof (cases r1)
    case (Inl e)
    with first have "getAllowedBlocks (view h) = Inl e" by simp
    with second v1 have "r2 = Inl e" by (cases r2) simp_all
    with Inl show ?thesis by simp
  next
    case (Inr a1)
    with first have a1: "a1 < nextRef h1" "getAllowedBlocks (view h) = Inr (contents h1 a1)"
      by simp_all
    with second v1 obtain a2 where a2: "r2 = Inr a2" "nextRef h1 \<le> a2"
      "contents h1 a1 = contents h2 a2"
      by (cases r2) simp_all
    from e2 a1(1) have "contents h2 a1 = contents h1 a1"
      by (rule extends_contents)
    with Inr a1 a2 show ?thesis by simp
  qed
  have texts: "t2 \<noteq> t1 \<and> contents g2 t2 = contents g1 t1 \<and> contents g2 t1 = contents g1 t1
      \<and> contents g1 t1 = getTextBlocks (view h)"
    using tr1 tr2 tc1 tc2 extends_contents [OF f2 tr1(2)] by simp
  have same: "getTextBlocks (view k) = getTextBlocks (view h)
      \<and> getAllowedBlocks (view k) = getAllowedBlocks (view h)"
    if "contents k (registry k) = contents h (registry h)
        \<and> hooks k allowedBlocksHook = hooks h allowedBlocksHook
        \<and> hooks k allowedBlocksAndFieldsHook = hooks h allowedBlocksAndFieldsHook"
  proof -
    from that have texts: "getTextBlocks (view k) = getTextBlocks (view h)"
      by (simp add: getTextBlocks_def getBlockTypes_def view_def)
    from that have "applyFilters (view k) allowedBlocksHook = applyFilters (view h) allowedBlocksHook"
      "applyFilters (view k) allowedBlocksAndFieldsHook
        = applyFilters (view h) allowedBlocksAndFieldsHook"
      by (simp_all add: applyFilters_def view_def fun_eq_iff)
    with texts show ?thesis
      by (simp add: getAllowedBlocks_def getAllowedBlocksAndFields_def)
  qed
  from frames results texts same show ?thesis
    by blast
qed

lemma exampleHost_wellFormed: "wellFormed exampleHost"
  by (simp add: wellFormed_def exampleHost_def)

lemma exampleHost_texts:
  "getTextBlocks_heap exampleHost =
     (2, exampleHost\<lparr>arrays := [0 \<mapsto> coreRegistry,
            1 \<mapsto> [coreRegistry ! 0, coreRegistry ! 2],
            2 \<mapsto> [JStr ''core/paragraph'', JStr ''core/heading'']], nextRef := 3\<rparr>)"
  by (simp add: getTextBlocks_heap_def allocate_def contents_def exampleHost_def coreRegistry_def
      optChain_def strictEq_def Let_def numeral_2_eq_2 numeral_3_eq_3)


theorem getAllowedBlocks_pure_witness:
  "wellFormed exampleHost
   \<and> unchanged exampleHost (snd (getAllowedBlocks_heap exampleHost))
   \<and> unchanged exampleHost (snd (getAllowedBlocks_heap (snd (getAllowedBlocks_heap exampleHost))))
   \<and> fst (getTextBlocks_heap exampleHost) = 2
   \<and> contents (snd (getTextBlocks_heap exampleHost)) 2
       = [JStr ''core/paragraph'', JStr ''core/heading'']
   \<and> getTextBlocks (view exampleHost) = [JStr ''core/paragraph'', JStr ''core/heading'']
   \<and> getAllowedBlocks (view movedHost) = getAllowedBlocks (view exampleHost)"
proof -
  have moved: "contents movedHost (registry movedHost) = contents exampleHost (registry exampleHost)
        \<and> hooks movedHost allowedBlocksHook = hooks exampleHost allowedBlocksHook
        \<and> hooks movedHost allowedBlocksAndFieldsHook = hooks exampleHost allowedBlocksAndFieldsHook"
    by (simp add: movedHost_def exampleHost_def contents_def)
  have second: "fst (getTextBlocks_heap exampleHost) = 2"
    by (simp add: exampleHost_texts)
  from getAllowedBlocks_pure [OF exampleHost_wellFormed,
      of "fst (getAllowedBlocks_heap exampleHost)" "snd (getAllowedBlocks_heap exampleHost)"
         "fst (getAllowedBlocks_heap (snd (getAllowedBlocks_heap exampleHost)))"
         "snd (getAllowedBlocks_heap (snd (getAllowedBlocks_heap exampleHost)))"
         "fst (getTextBlocks_heap exampleHost)" "snd (getTextBlocks_heap exampleHost)"
         "fst (getTextBlocks_heap (snd (getTextBlocks_heap exampleHost)))"
         "snd (getTextBlocks_heap (snd (getTextBlocks_heap exampleHost)))" movedHost]
  have "unchanged exampleHost (snd (getAllowedBlocks_heap exampleHost))"
    "unchanged exampleHost (snd (getAllowedBlocks_heap (snd (getAllowedBlocks_heap exampleHost))))"
    "contents (snd (getTextBlocks_heap exampleHost)) (fst (getTextBlocks_heap exampleHost))
       = getTextBlocks (view exampleHost)"
    "getAllowedBlocks (view movedHost) = getAllowedBlocks (view exampleHost)"
    using moved by simp_all
  moreover have "getTextBlocks (view exampleHost) = [JStr ''core/paragraph'', JStr ''core/heading'']"
    by (simp add: getTextBlocks_def getBlockTypes_def view_def contents_def exampleHost_def
        coreRegistry_def optChain_def strictEq_def)
  ultimately show ?thesis
    using exampleHost_wellFormed second by simp
qed

end
